theory Spec2Isabelle
  imports Main
begin

section \<open>The notebook S3\_Unitary\_Ansatz as a program\<close>

text \<open>
  The repository's code is the Jupyter notebook
  \<^verbatim>\<open>Project_2_VQE_Molecules/S3_Unitary_Ansatz.ipynb\<close>: six code cells of Python that
  call into \<^verbatim>\<open>tequila\<close> (bound to \<^verbatim>\<open>tq\<close>) and into the names brought in by
  \<^verbatim>\<open>from utility import *\<close>. The cells are embedded as abstract syntax, and run by an
  interpreter for a fragment of Python: the statements and expressions the cells use,
  and \<^verbatim>\<open>if\<close>, \<^verbatim>\<open>try\<close> and \<^verbatim>\<open>raise\<close>, with which a script tests a result, recovers
  from an exception or gives up. Everything outside the notebook (the imported modules,
  the objects they return, attributes and operators of those objects, arithmetic on
  floats) is a parameter of the interpreter, the library \<open>L\<close>: it answers each call,
  given the history of the run so far, with a value or with an exception. The
  interpreter records every call and every \<^verbatim>\<open>print\<close> as an event: each function below
  takes the events of the run so far (the history \<open>h\<close>) and returns, with its result, the
  events it adds.
\<close>

subsection \<open>Values, exceptions, events\<close>

text \<open>
  \<open>VFlt m e\<close> is the float written \<open>m\<close>e\<open>e\<close> in decimal (\<^verbatim>\<open>1e-6\<close> and \<^verbatim>\<open>1.e-6\<close> are
  both \<open>VFlt 1 (-6)\<close>, \<^verbatim>\<open>0.0\<close> is \<open>VFlt 0 0\<close>); the notebook does no float arithmetic of
  its own. \<open>VObj\<close> is an object of a library class that is neither a number, a string
  nor a container. \<open>VRef [m]\<close> is the module \<open>m\<close>, and \<open>VRef [m, x]\<close> the name \<open>x\<close>
  of the module \<open>m\<close>.
\<close>

datatype val =
    VNone
  | VBool bool
  | VInt int
  | VFlt int int
  | VStr string
  | VList "val list"
  | VTuple "val list"
  | VDict "(val \<times> val) list"
  | VObj nat
  | VRef "string list"

text \<open>
  \<open>Raised v\<close> is the exception of a \<^verbatim>\<open>raise\<close> statement of the script, \<open>v\<close> an object or
  a class of the library; the others are Python's own, or the library's (\<open>LibError\<close>).
\<close>

datatype err =
    NameError string
  | AttributeError string
  | TypeError
  | IndexError
  | KeyError
  | LibError nat
  | Raised val

datatype binop = Add | Mult

datatype callee =
    Import string
  | ImportStar string
  | Fn "string list"
  | Meth string
  | GetAttr string
  | Op binop

datatype event =
    Call callee "val list" "(string \<times> val) list" "err + val"
  | Print "val list" "(string \<times> val) list"

type_synonym lib =
  "event list \<Rightarrow> callee \<Rightarrow> val list \<Rightarrow> (string \<times> val) list \<Rightarrow> err + val"

subsection \<open>Syntax of the cells\<close>

datatype expr =
    Num int
  | Flt int int
  | Str string
  | BoolC bool
  | Name string
  | Attr expr string
  | FCall string "expr list" "(string \<times> expr) list"
  | MCall expr string "expr list" "(string \<times> expr) list"
  | BinOp expr binop expr
  | Subscript expr expr
  | DictComp expr expr string expr

text \<open>
  \<open>SIf c yes no\<close> is \<^verbatim>\<open>if c: yes else: no\<close>; \<open>STry body handler\<close> is
  \<^verbatim>\<open>try: body except: handler\<close>; \<open>SRaise e\<close> is \<^verbatim>\<open>raise e\<close>.
\<close>

datatype stmt =
    SImport string string
  | SImportStar string
  | SAssign string expr
  | SExpr expr
  | SFor string expr "stmt list"
  | SIf expr "stmt list" "stmt list"
  | STry "stmt list" "stmt list"
  | SRaise expr

datatype cell = Markdown | Code "stmt list"

text \<open>The state of a run is the notebook's global namespace.\<close>

record state =
  env :: "string \<rightharpoonup> val"

subsection \<open>Python's built-in operations on values\<close>

definition as_int :: "val \<Rightarrow> int option" where
  "as_int v = (case v of VInt n \<Rightarrow> Some n | VBool b \<Rightarrow> Some (if b then 1 else 0) | _ \<Rightarrow> None)"

definition arith :: "binop \<Rightarrow> val \<Rightarrow> val \<Rightarrow> val option" where
  "arith bop l r =
     (case as_int l of None \<Rightarrow> None
      | Some a \<Rightarrow> (case as_int r of None \<Rightarrow> None
          | Some b \<Rightarrow> Some (VInt (case bop of Add \<Rightarrow> a + b | Mult \<Rightarrow> a * b))))"

definition seq_get :: "'a list \<Rightarrow> int \<Rightarrow> err + 'a" where
  "seq_get xs i =
     (if 0 \<le> i \<and> i < int (length xs) then Inr (xs ! nat i)
      else if i < 0 \<and> - int (length xs) \<le> i then Inr (xs ! nat (int (length xs) + i))
      else Inl IndexError)"

fun hashable :: "val \<Rightarrow> bool" and hashable_all :: "val list \<Rightarrow> bool" where
  "hashable (VList xs) = False"
| "hashable (VDict d) = False"
| "hashable (VTuple xs) = hashable_all xs"
| "hashable v = True"
| "hashable_all [] = True"
| "hashable_all (x # xs) = (hashable x \<and> hashable_all xs)"

definition subscript :: "val \<Rightarrow> val \<Rightarrow> err + val" where
  "subscript v i =
     (case v of
        VList xs \<Rightarrow> (case as_int i of None \<Rightarrow> Inl TypeError | Some n \<Rightarrow> seq_get xs n)
      | VTuple xs \<Rightarrow> (case as_int i of None \<Rightarrow> Inl TypeError | Some n \<Rightarrow> seq_get xs n)
      | VStr s \<Rightarrow> (case as_int i of None \<Rightarrow> Inl TypeError
                   | Some n \<Rightarrow> (case seq_get s n of Inl e \<Rightarrow> Inl e | Inr c \<Rightarrow> Inr (VStr [c])))
      | VDict d \<Rightarrow> (if hashable i
                    then (case map_of d i of None \<Rightarrow> Inl KeyError | Some x \<Rightarrow> Inr x)
                    else Inl TypeError)
      | _ \<Rightarrow> Inl TypeError)"

definition iterate :: "val \<Rightarrow> err + val list" where
  "iterate v =
     (case v of
        VList xs \<Rightarrow> Inr xs
      | VTuple xs \<Rightarrow> Inr xs
      | VDict d \<Rightarrow> Inr (map fst d)
      | VStr s \<Rightarrow> Inr (map (\<lambda>c. VStr [c]) s)
      | _ \<Rightarrow> Inl TypeError)"

fun dict_set :: "(val \<times> val) list \<Rightarrow> val \<Rightarrow> val \<Rightarrow> (val \<times> val) list" where
  "dict_set [] k v = [(k, v)]"
| "dict_set ((k', v') # d) k v =
     (if k' = k then (k', v) # d else (k', v') # dict_set d k v)"

subsection \<open>Names and calls\<close>

text \<open>
  A name is looked up in the namespace; \<^verbatim>\<open>print\<close> is bound there from the start. The
  library answers \<^verbatim>\<open>from m import *\<close> with the names the module exports, and each of
  them not bound yet is bound to \<open>VRef [m, x]\<close>, the name \<open>x\<close> of \<open>m\<close>. A name that is
  bound already keeps its value: the module \<^verbatim>\<open>utility\<close> is not among the sources, and
  where it exports \<^verbatim>\<open>np\<close>, \<^verbatim>\<open>tq\<close> or \<^verbatim>\<open>print\<close> these are taken to be what the notebook
  has under these names.
\<close>

definition initial :: state where
  "initial = \<lparr>env = [''print'' \<mapsto> VRef [''builtins'', ''print'']]\<rparr>"

definition lookup :: "state \<Rightarrow> string \<Rightarrow> err + val" where
  "lookup st x = (case env st x of Some v \<Rightarrow> Inr v | None \<Rightarrow> Inl (NameError x))"

fun names_of :: "val list \<Rightarrow> string list" where
  "names_of [] = []"
| "names_of (VStr s # vs) = s # names_of vs"
| "names_of (v # vs) = names_of vs"

definition exported :: "val \<Rightarrow> string list" where
  "exported v = (case v of VList xs \<Rightarrow> names_of xs | VTuple xs \<Rightarrow> names_of xs | _ \<Rightarrow> [])"

definition star_bind :: "string \<Rightarrow> string list \<Rightarrow> (string \<rightharpoonup> val) \<Rightarrow> (string \<rightharpoonup> val)" where
  "star_bind m xs e =
     (\<lambda>x. case e x of
            Some v \<Rightarrow> Some v
          | None \<Rightarrow> if x \<in> set xs then Some (VRef [m, x]) else None)"

definition call_lib ::
  "lib \<Rightarrow> event list \<Rightarrow> callee \<Rightarrow> val list \<Rightarrow> (string \<times> val) list \<Rightarrow> (err + val) \<times> event list" where
  "call_lib L h c args kws = (L h c args kws, [Call c args kws (L h c args kws)])"

definition call_value ::
  "lib \<Rightarrow> event list \<Rightarrow> val \<Rightarrow> val list \<Rightarrow> (string \<times> val) list \<Rightarrow> (err + val) \<times> event list" where
  "call_value L h f args kws =
     (case f of
        VRef p \<Rightarrow>
          if p = [''builtins'', ''print''] then (Inr VNone, [Print args kws])
          else call_lib L h (Fn p) args kws
      | VObj n \<Rightarrow> call_lib L h (Meth ''__call__'') (f # args) kws
      | _ \<Rightarrow> (Inl TypeError, []))"

text \<open>The truth value of the test of an \<^verbatim>\<open>if\<close>; an object of the library is asked for it.\<close>

definition truth :: "lib \<Rightarrow> event list \<Rightarrow> val \<Rightarrow> (err + bool) \<times> event list" where
  "truth L h v =
     (case v of
        VNone \<Rightarrow> (Inr False, [])
      | VBool b \<Rightarrow> (Inr b, [])
      | VInt n \<Rightarrow> (Inr (n \<noteq> 0), [])
      | VFlt m e \<Rightarrow> (Inr (m \<noteq> 0), [])
      | VStr s \<Rightarrow> (Inr (s \<noteq> []), [])
      | VList xs \<Rightarrow> (Inr (xs \<noteq> []), [])
      | VTuple xs \<Rightarrow> (Inr (xs \<noteq> []), [])
      | VDict d \<Rightarrow> (Inr (d \<noteq> []), [])
      | VRef p \<Rightarrow> (Inr True, [])
      | VObj n \<Rightarrow>
          (case call_lib L h (Meth ''__bool__'') [v] [] of
             (Inl er, t) \<Rightarrow> (Inl er, t)
           | (Inr w, t) \<Rightarrow> (case w of VBool b \<Rightarrow> (Inr b, t) | _ \<Rightarrow> (Inl TypeError, t))))"

subsection \<open>Expressions\<close>

text \<open>
  Python evaluates the callee, then the positional arguments from left to right, then
  the keyword arguments in the order written, then makes the call. An attribute
  \<^verbatim>\<open>e.a\<close> is asked of the library, whether \<^verbatim>\<open>e\<close> is a module or an object. For a
  method call \<^verbatim>\<open>e.m(...)\<close> the attribute \<^verbatim>\<open>m\<close> of the receiver is looked up first, and
  the lookup may fail before any argument is evaluated; the bound method it returns is
  then called as the method \<^verbatim>\<open>m\<close> of the receiver (a module for \<^verbatim>\<open>tq.minimize\<close>, an
  object for \<^verbatim>\<open>molecule.make_hamiltonian\<close>), which is the first argument of the call.
  \<^verbatim>\<open>+\<close> and \<^verbatim>\<open>*\<close> on two integers are computed; on anything else (objects of the
  library, floats) the operator is asked of the library. A dict comprehension binds its
  variable in a scope of its own.
\<close>

function (sequential)
    eval :: "lib \<Rightarrow> state \<Rightarrow> event list \<Rightarrow> expr \<Rightarrow> (err + val) \<times> event list"
and eval_args :: "lib \<Rightarrow> state \<Rightarrow> event list \<Rightarrow> expr list \<Rightarrow> (err + val list) \<times> event list"
and eval_kws :: "lib \<Rightarrow> state \<Rightarrow> event list \<Rightarrow> (string \<times> expr) list
                  \<Rightarrow> (err + (string \<times> val) list) \<times> event list"
and comp_loop :: "lib \<Rightarrow> state \<Rightarrow> event list \<Rightarrow> string \<Rightarrow> expr \<Rightarrow> expr \<Rightarrow> val list
                  \<Rightarrow> (val \<times> val) list \<Rightarrow> (err + val) \<times> event list"
where
  "eval L st h (Num n) = (Inr (VInt n), [])"
| "eval L st h (Flt m e) = (Inr (VFlt m e), [])"
| "eval L st h (Str s) = (Inr (VStr s), [])"
| "eval L st h (BoolC b) = (Inr (VBool b), [])"
| "eval L st h (Name x) = (lookup st x, [])"
| "eval L st h (Attr e a) =
     (case eval L st h e of
        (Inl er, t1) \<Rightarrow> (Inl er, t1)
      | (Inr v, t1) \<Rightarrow>
          (case call_lib L (h @ t1) (GetAttr a) [v] [] of (r, t2) \<Rightarrow> (r, t1 @ t2)))"
| "eval L st h (FCall f args kws) =
     (case lookup st f of
        Inl er \<Rightarrow> (Inl er, [])
      | Inr fv \<Rightarrow>
          (case eval_args L st h args of
             (Inl er, t1) \<Rightarrow> (Inl er, t1)
           | (Inr vs, t1) \<Rightarrow>
               (case eval_kws L st (h @ t1) kws of
                  (Inl er, t2) \<Rightarrow> (Inl er, t1 @ t2)
                | (Inr kvs, t2) \<Rightarrow>
                    (case call_value L (h @ t1 @ t2) fv vs kvs of
                       (r, t3) \<Rightarrow> (r, t1 @ t2 @ t3)))))"
| "eval L st h (MCall e m args kws) =
     (case eval L st h e of
        (Inl er, t1) \<Rightarrow> (Inl er, t1)
      | (Inr v, t1) \<Rightarrow>
          (case call_lib L (h @ t1) (GetAttr m) [v] [] of
             (Inl er, t2) \<Rightarrow> (Inl er, t1 @ t2)
           | (Inr f, t2) \<Rightarrow>
               (case eval_args L st (h @ t1 @ t2) args of
                  (Inl er, t3) \<Rightarrow> (Inl er, t1 @ t2 @ t3)
                | (Inr vs, t3) \<Rightarrow>
                    (case eval_kws L st (h @ t1 @ t2 @ t3) kws of
                       (Inl er, t4) \<Rightarrow> (Inl er, t1 @ t2 @ t3 @ t4)
                     | (Inr kvs, t4) \<Rightarrow>
                         (case call_lib L (h @ t1 @ t2 @ t3 @ t4) (Meth m) (v # vs) kvs of
                            (r, t5) \<Rightarrow> (r, t1 @ t2 @ t3 @ t4 @ t5))))))"
| "eval L st h (BinOp l bop r) =
     (case eval L st h l of
        (Inl er, t1) \<Rightarrow> (Inl er, t1)
      | (Inr a, t1) \<Rightarrow>
          (case eval L st (h @ t1) r of
             (Inl er, t2) \<Rightarrow> (Inl er, t1 @ t2)
           | (Inr b, t2) \<Rightarrow>
               (case arith bop a b of
                  Some v \<Rightarrow> (Inr v, t1 @ t2)
                | None \<Rightarrow>
                    (case call_lib L (h @ t1 @ t2) (Op bop) [a, b] [] of
                       (res, t3) \<Rightarrow> (res, t1 @ t2 @ t3)))))"
| "eval L st h (Subscript e i) =
     (case eval L st h e of
        (Inl er, t1) \<Rightarrow> (Inl er, t1)
      | (Inr v, t1) \<Rightarrow>
          (case eval L st (h @ t1) i of
             (Inl er, t2) \<Rightarrow> (Inl er, t1 @ t2)
           | (Inr k, t2) \<Rightarrow> (subscript v k, t1 @ t2)))"
| "eval L st h (DictComp ke ve x it) =
     (case eval L st h it of
        (Inl er, t1) \<Rightarrow> (Inl er, t1)
      | (Inr v, t1) \<Rightarrow>
          (case iterate v of
             Inl er \<Rightarrow> (Inl er, t1)
           | Inr vs \<Rightarrow>
               (case comp_loop L st (h @ t1) x ke ve vs [] of
                  (r, t2) \<Rightarrow> (r, t1 @ t2))))"
| "eval_args L st h [] = (Inr [], [])"
| "eval_args L st h (e # es) =
     (case eval L st h e of
        (Inl er, t1) \<Rightarrow> (Inl er, t1)
      | (Inr v, t1) \<Rightarrow>
          (case eval_args L st (h @ t1) es of
             (Inl er, t2) \<Rightarrow> (Inl er, t1 @ t2)
           | (Inr vs, t2) \<Rightarrow> (Inr (v # vs), t1 @ t2)))"
| "eval_kws L st h [] = (Inr [], [])"
| "eval_kws L st h ((k, e) # kes) =
     (case eval L st h e of
        (Inl er, t1) \<Rightarrow> (Inl er, t1)
      | (Inr v, t1) \<Rightarrow>
          (case eval_kws L st (h @ t1) kes of
             (Inl er, t2) \<Rightarrow> (Inl er, t1 @ t2)
           | (Inr kvs, t2) \<Rightarrow> (Inr ((k, v) # kvs), t1 @ t2)))"
| "comp_loop L st h x ke ve [] acc = (Inr (VDict acc), [])"
| "comp_loop L st h x ke ve (v # vs) acc =
     (case eval L (st\<lparr>env := (env st)(x \<mapsto> v)\<rparr>) h ke of
        (Inl er, t1) \<Rightarrow> (Inl er, t1)
      | (Inr k, t1) \<Rightarrow>
          (case eval L (st\<lparr>env := (env st)(x \<mapsto> v)\<rparr>) (h @ t1) ve of
             (Inl er, t2) \<Rightarrow> (Inl er, t1 @ t2)
           | (Inr w, t2) \<Rightarrow>
               if hashable k
               then (case comp_loop L st (h @ t1 @ t2) x ke ve vs (dict_set acc k w) of
                       (r, t3) \<Rightarrow> (r, t1 @ t2 @ t3))
               else (Inl TypeError, t1 @ t2)))"
  by pat_completeness auto

termination
  by (relation "inv_image (less_than <*lex*> less_than) (\<lambda>x. case x of
         Inl (Inl (L, st, h, e)) \<Rightarrow> (2 * size e + 2, 0)
       | Inl (Inr (L, st, h, es)) \<Rightarrow> (2 * size_list size es + 1, 0)
       | Inr (Inl (L, st, h, kes)) \<Rightarrow> (2 * size_list (size_prod (\<lambda>x. 0) size) kes + 1, 0)
       | Inr (Inr (L, st, h, x, ke, ve, vs, acc)) \<Rightarrow> (2 * (size ke + size ve) + 3, length vs))")
     (auto simp: size_list_conv_sum_list)

subsection \<open>Statements and cells\<close>

text \<open>
  \<^verbatim>\<open>import m as a\<close> and \<^verbatim>\<open>from m import *\<close> load the module, which the library may
  refuse. A \<^verbatim>\<open>for\<close> loop binds its variable in the enclosing scope. A statement that
  fails returns, with the exception, the state in which it failed: the handler of a
  \<^verbatim>\<open>try\<close> runs in that state, and catches every exception. The cells run from top to
  bottom, each in the state the one before left (markdown cells do nothing), and an
  exception that no handler caught ends the run.
\<close>

function (sequential)
    exec :: "lib \<Rightarrow> state \<Rightarrow> event list \<Rightarrow> stmt \<Rightarrow> ((err \<times> state) + state) \<times> event list"
and exec_block :: "lib \<Rightarrow> state \<Rightarrow> event list \<Rightarrow> stmt list
                   \<Rightarrow> ((err \<times> state) + state) \<times> event list"
and for_loop :: "lib \<Rightarrow> state \<Rightarrow> event list \<Rightarrow> string \<Rightarrow> val list \<Rightarrow> stmt list
                 \<Rightarrow> ((err \<times> state) + state) \<times> event list"
where
  "exec L st h (SImport m a) =
     (case call_lib L h (Import m) [] [] of
        (Inl er, t1) \<Rightarrow> (Inl (er, st), t1)
      | (Inr v, t1) \<Rightarrow> (Inr (st\<lparr>env := (env st)(a \<mapsto> VRef [m])\<rparr>), t1))"
| "exec L st h (SImportStar m) =
     (case call_lib L h (ImportStar m) [] [] of
        (Inl er, t1) \<Rightarrow> (Inl (er, st), t1)
      | (Inr v, t1) \<Rightarrow> (Inr (st\<lparr>env := star_bind m (exported v) (env st)\<rparr>), t1))"
| "exec L st h (SAssign x e) =
     (case eval L st h e of
        (Inl er, t1) \<Rightarrow> (Inl (er, st), t1)
      | (Inr v, t1) \<Rightarrow> (Inr (st\<lparr>env := (env st)(x \<mapsto> v)\<rparr>), t1))"
| "exec L st h (SExpr e) =
     (case eval L st h e of
        (Inl er, t1) \<Rightarrow> (Inl (er, st), t1)
      | (Inr v, t1) \<Rightarrow> (Inr st, t1))"
| "exec L st h (SFor x it body) =
     (case eval L st h it of
        (Inl er, t1) \<Rightarrow> (Inl (er, st), t1)
      | (Inr v, t1) \<Rightarrow>
          (case iterate v of
             Inl er \<Rightarrow> (Inl (er, st), t1)
           | Inr vs \<Rightarrow>
               (case for_loop L st (h @ t1) x vs body of
                  (r, t2) \<Rightarrow> (r, t1 @ t2))))"
| "exec L st h (SIf c yes no) =
     (case eval L st h c of
        (Inl er, t1) \<Rightarrow> (Inl (er, st), t1)
      | (Inr v, t1) \<Rightarrow>
          (case truth L (h @ t1) v of
             (Inl er, t2) \<Rightarrow> (Inl (er, st), t1 @ t2)
           | (Inr b, t2) \<Rightarrow>
               (case (if b then exec_block L st (h @ t1 @ t2) yes
                      else exec_block L st (h @ t1 @ t2) no) of
                  (r, t3) \<Rightarrow> (r, t1 @ t2 @ t3))))"
| "exec L st h (STry body handler) =
     (case exec_block L st h body of
        (Inl (er, st1), t1) \<Rightarrow>
          (case exec_block L st1 (h @ t1) handler of
             (r, t2) \<Rightarrow> (r, t1 @ t2))
      | (Inr st1, t1) \<Rightarrow> (Inr st1, t1))"
| "exec L st h (SRaise e) =
     (case eval L st h e of
        (Inl er, t1) \<Rightarrow> (Inl (er, st), t1)
      | (Inr v, t1) \<Rightarrow>
          (case v of
             VObj n \<Rightarrow> (Inl (Raised v, st), t1)
           | VRef p \<Rightarrow> (Inl (Raised v, st), t1)
           | _ \<Rightarrow> (Inl (TypeError, st), t1)))"
| "exec_block L st h [] = (Inr st, [])"
| "exec_block L st h (s # ss) =
     (case exec L st h s of
        (Inl er, t1) \<Rightarrow> (Inl er, t1)
      | (Inr st1, t1) \<Rightarrow>
          (case exec_block L st1 (h @ t1) ss of
             (r, t2) \<Rightarrow> (r, t1 @ t2)))"
| "for_loop L st h x [] body = (Inr st, [])"
| "for_loop L st h x (v # vs) body =
     (case exec_block L (st\<lparr>env := (env st)(x \<mapsto> v)\<rparr>) h body of
        (Inl er, t1) \<Rightarrow> (Inl er, t1)
      | (Inr st1, t1) \<Rightarrow>
          (case for_loop L st1 (h @ t1) x vs body of
             (r, t2) \<Rightarrow> (r, t1 @ t2)))"
  by pat_completeness auto

termination
  by (relation "inv_image (less_than <*lex*> less_than) (\<lambda>x. case x of
         Inl (L, st, h, s) \<Rightarrow> (2 * size s + 2, 0)
       | Inr (Inl (L, st, h, ss)) \<Rightarrow> (2 * size_list size ss + 1, 0)
       | Inr (Inr (L, st, h, x, vs, body)) \<Rightarrow> (2 * size_list size body + 2, length vs))")
     (auto simp: size_list_conv_sum_list)

fun run_cells ::
  "lib \<Rightarrow> state \<Rightarrow> event list \<Rightarrow> cell list \<Rightarrow> ((err \<times> state) + state) \<times> event list" where
  "run_cells L st h [] = (Inr st, [])"
| "run_cells L st h (Markdown # cs) = run_cells L st h cs"
| "run_cells L st h (Code ss # cs) =
     (case exec_block L st h ss of
        (Inl er, t1) \<Rightarrow> (Inl er, t1)
      | (Inr st1, t1) \<Rightarrow>
          (case run_cells L st1 (h @ t1) cs of
             (r, t2) \<Rightarrow> (r, t1 @ t2)))"

text \<open>
  The run of a notebook: its outcome (the exception that ended it, or the final state)
  and its events.
\<close>

definition run :: "lib \<Rightarrow> cell list \<Rightarrow> (err + state) \<times> event list" where
  "run L nb =
     (case run_cells L initial [] nb of
        (Inl (er, st), t) \<Rightarrow> (Inl er, t)
      | (Inr st, t) \<Rightarrow> (Inr st, t))"

subsection \<open>The notebook\<close>

definition molecule_expr :: expr where
  "molecule_expr =
     MCall (Attr (Name ''tq'') ''quantumchemistry'') ''Molecule'' []
       [(''geometry'', Name ''xyz_data''), (''basis_set'', Name ''basis'')]"

definition xyz_expr :: expr where
  "xyz_expr =
     FCall ''get_molecular_data'' [Str ''h2'']
       [(''geometry'', Num 2), (''xyz_format'', BoolC True)]"

definition n_qubits_expr :: expr where
  "n_qubits_expr = BinOp (Num 2) Mult (Attr (Name ''molecule'') ''n_orbitals'')"

definition cell_setup :: cell where
  "cell_setup = Code
     [SImport ''numpy'' ''np'',
      SImport ''tequila'' ''tq'',
      SImportStar ''utility'',
      SAssign ''threshold'' (Flt 1 (- 6)),
      SAssign ''basis'' (Str ''sto-3g'')]"

definition cell_trotter :: cell where
  "cell_trotter = Code [SAssign ''trotter_steps'' (Num 1)]"

definition cell_ucc :: cell where
  "cell_ucc = Code
     [SAssign ''xyz_data'' xyz_expr,
      SAssign ''molecule'' molecule_expr,
      SAssign ''H'' (MCall (Name ''molecule'') ''make_hamiltonian'' [] []),
      SAssign ''U_UCCSD''
        (MCall (Name ''molecule'') ''make_uccsd_ansatz'' []
           [(''initial_amplitudes'', Str ''mp2''),
            (''threshold'', Name ''threshold''),
            (''trotter_steps'', Name ''trotter_steps'')]),
      SAssign ''E''
        (MCall (Name ''tq'') ''ExpectationValue'' []
           [(''H'', Name ''H''), (''U'', Name ''U_UCCSD'')]),
      SAssign ''result''
        (MCall (Name ''tq'') ''minimize'' []
           [(''objective'', Name ''E''),
            (''method'', Str ''BFGS''),
            (''initial_values'',
               DictComp (Name ''k'') (Flt 0 0) ''k''
                 (MCall (Name ''E'') ''extract_variables'' [] [])),
            (''tol'', Flt 1 (- 6))])]"

definition cell_qcc_ranking :: cell where
  "cell_qcc_ranking = Code
     [SAssign ''xyz_data'' xyz_expr,
      SAssign ''molecule'' molecule_expr,
      SAssign ''hf_reference''
        (FCall ''hf_occ'' [n_qubits_expr, Attr (Name ''molecule'') ''n_electrons''] []),
      SAssign ''H'' (MCall (Name ''molecule'') ''make_hamiltonian'' [] []),
      SAssign ''n_ents'' (Num 1),
      SAssign ''ranked_entangler_groupings''
        (FCall ''generate_QCC_gradient_groupings''
           [MCall (Name ''H'') ''to_openfermion'' [] [], n_qubits_expr, Name ''hf_reference'']
           [(''cutoff'', Name ''threshold'')]),
      SExpr (FCall ''print'' [Str ''Grouping gradient magnitudes:''] []),
      SFor ''grouping'' (Name ''ranked_entangler_groupings'')
        [SExpr (FCall ''print'' [Subscript (Name ''grouping'') (Num 1)] [])],
      SAssign ''entanglers''
        (FCall ''get_QCC_entanglers''
           [Name ''ranked_entangler_groupings'', Name ''n_ents'', n_qubits_expr] []),
      SExpr (FCall ''print'' [Str (CHR 0x0A # ''Generated entanglers:'')] []),
      SFor ''ent'' (Name ''entanglers'')
        [SExpr (FCall ''print'' [Name ''ent''] [])]]"

definition cell_qcc_vqe :: cell where
  "cell_qcc_vqe = Code
     [SAssign ''U_MF'' (FCall ''construct_QMF_ansatz'' [] [(''n_qubits'', n_qubits_expr)]),
      SAssign ''U_ENT'' (FCall ''construct_QCC_ansatz'' [Name ''entanglers''] []),
      SAssign ''U_QCC'' (BinOp (Name ''U_MF'') Add (Name ''U_ENT'')),
      SAssign ''E''
        (MCall (Name ''tq'') ''ExpectationValue'' []
           [(''H'', Name ''H''), (''U'', Name ''U_QCC'')]),
      SAssign ''initial_vals''
        (FCall ''init_qcc_params''
           [Name ''hf_reference'', MCall (Name ''E'') ''extract_variables'' [] []] []),
      SAssign ''result''
        (MCall (Name ''tq'') ''minimize'' []
           [(''objective'', Name ''E''),
            (''method'', Str ''BFGS''),
            (''initial_values'', Name ''initial_vals''),
            (''tol'', Flt 1 (- 6))])]"

text \<open>
  The names the notebook calls and never binds: only \<^verbatim>\<open>from utility import *\<close> can have
  bound them.
\<close>

definition helper_names :: "string list" where
  "helper_names =
     [''get_molecular_data'', ''hf_occ'', ''generate_QCC_gradient_groupings'',
      ''get_QCC_entanglers'', ''construct_QMF_ansatz'', ''construct_QCC_ansatz'',
      ''init_qcc_params'']"

definition cell_empty :: cell where
  "cell_empty = Code []"

definition notebook :: "cell list" where
  "notebook =
     [Markdown, cell_setup, Markdown, cell_trotter, Markdown, cell_ucc,
      Markdown, cell_qcc_ranking, Markdown, cell_qcc_vqe, cell_empty]"

subsection \<open>What the cells contain\<close>

fun expr_has_call :: "expr \<Rightarrow> bool" where
  "expr_has_call (FCall f args kws) = True"
| "expr_has_call (MCall e m args kws) = True"
| "expr_has_call (Attr e a) = expr_has_call e"
| "expr_has_call (BinOp l bop r) = (expr_has_call l \<or> expr_has_call r)"
| "expr_has_call (Subscript e i) = (expr_has_call e \<or> expr_has_call i)"
| "expr_has_call (DictComp ke ve x it) =
     (expr_has_call ke \<or> expr_has_call ve \<or> expr_has_call it)"
| "expr_has_call e = False"

fun stmt_has_call :: "stmt \<Rightarrow> bool" and block_has_call :: "stmt list \<Rightarrow> bool" where
  "stmt_has_call (SImport m a) = False"
| "stmt_has_call (SImportStar m) = False"
| "stmt_has_call (SAssign x e) = expr_has_call e"
| "stmt_has_call (SExpr e) = expr_has_call e"
| "stmt_has_call (SFor x it body) = (expr_has_call it \<or> block_has_call body)"
| "stmt_has_call (SIf c yes no) = (expr_has_call c \<or> block_has_call yes \<or> block_has_call no)"
| "stmt_has_call (STry body handler) = (block_has_call body \<or> block_has_call handler)"
| "stmt_has_call (SRaise e) = expr_has_call e"
| "block_has_call [] = False"
| "block_has_call (s # ss) = (stmt_has_call s \<or> block_has_call ss)"

fun cell_has_call :: "cell \<Rightarrow> bool" where
  "cell_has_call Markdown = False"
| "cell_has_call (Code ss) = block_has_call ss"

fun cell_has_code :: "cell \<Rightarrow> bool" where
  "cell_has_code Markdown = False"
| "cell_has_code (Code ss) = (ss \<noteq> [])"

fun is_literal :: "expr \<Rightarrow> bool" where
  "is_literal (Num n) = True"
| "is_literal (Flt m e) = True"
| "is_literal (Str s) = True"
| "is_literal (BoolC b) = True"
| "is_literal e = False"

fun is_setup_stmt :: "stmt \<Rightarrow> bool" where
  "is_setup_stmt (SImport m a) = True"
| "is_setup_stmt (SImportStar m) = True"
| "is_setup_stmt (SAssign x e) = is_literal e"
| "is_setup_stmt s = False"

fun is_print_stmt :: "stmt \<Rightarrow> bool" where
  "is_print_stmt (SExpr (FCall f args kws)) = (f = ''print'')"
| "is_print_stmt s = False"

text \<open>
  A statement of a straight sequence: an assignment, a \<^verbatim>\<open>print\<close>, or a \<^verbatim>\<open>for\<close> loop over
  a variable whose body only prints.
\<close>

fun is_sequence_stmt :: "stmt \<Rightarrow> bool" where
  "is_sequence_stmt (SAssign x e) = True"
| "is_sequence_stmt (SExpr e) = is_print_stmt (SExpr e)"
| "is_sequence_stmt (SFor x (Name y) body) = list_all is_print_stmt body"
| "is_sequence_stmt s = False"

fun cell_stmts :: "cell \<Rightarrow> stmt list" where
  "cell_stmts Markdown = []"
| "cell_stmts (Code ss) = ss"

text \<open>
  Failure handling in a cell: a \<^verbatim>\<open>try\<close> (an exception handler), an \<^verbatim>\<open>if\<close> (a test of a
  value before it is used).
\<close>

fun stmt_has_try :: "stmt \<Rightarrow> bool" and block_has_try :: "stmt list \<Rightarrow> bool" where
  "stmt_has_try (STry body handler) = True"
| "stmt_has_try (SFor x it body) = block_has_try body"
| "stmt_has_try (SIf c yes no) = (block_has_try yes \<or> block_has_try no)"
| "stmt_has_try s = False"
| "block_has_try [] = False"
| "block_has_try (s # ss) = (stmt_has_try s \<or> block_has_try ss)"

fun stmt_has_test :: "stmt \<Rightarrow> bool" and block_has_test :: "stmt list \<Rightarrow> bool" where
  "stmt_has_test (SIf c yes no) = True"
| "stmt_has_test (SFor x it body) = block_has_test body"
| "stmt_has_test (STry body handler) = (block_has_test body \<or> block_has_test handler)"
| "stmt_has_test s = False"
| "block_has_test [] = False"
| "block_has_test (s # ss) = (stmt_has_test s \<or> block_has_test ss)"

fun cell_has_try :: "cell \<Rightarrow> bool" where
  "cell_has_try Markdown = False"
| "cell_has_try (Code ss) = block_has_try ss"

fun cell_has_test :: "cell \<Rightarrow> bool" where
  "cell_has_test Markdown = False"
| "cell_has_test (Code ss) = block_has_test ss"

text \<open>The modules a cell imports, and a statement of a straight-line script.\<close>

fun imports_of :: "stmt \<Rightarrow> string list" and block_imports :: "stmt list \<Rightarrow> string list" where
  "imports_of (SImport m a) = [m]"
| "imports_of (SImportStar m) = [m]"
| "imports_of (SFor x it body) = block_imports body"
| "imports_of (SIf c yes no) = block_imports yes @ block_imports no"
| "imports_of (STry body handler) = block_imports body @ block_imports handler"
| "imports_of s = []"
| "block_imports [] = []"
| "block_imports (s # ss) = imports_of s @ block_imports ss"

definition straight_line :: "stmt \<Rightarrow> bool" where
  "straight_line s = (is_setup_stmt s \<or> is_sequence_stmt s)"

fun cell_imports :: "cell \<Rightarrow> string list" where
  "cell_imports Markdown = []"
| "cell_imports (Code ss) = block_imports ss"

subsection \<open>Reading a trace\<close>

text \<open>A call the library answered with an exception.\<close>

fun failed :: "event \<Rightarrow> bool" where
  "failed (Call c a k (Inl e)) = True"
| "failed ev = False"

text \<open>
  \<open>consistent L h t\<close>: after the history \<open>h\<close>, the library \<open>L\<close> gives to every call
  of the trace \<open>t\<close> the answer recorded there.
\<close>

fun consistent :: "lib \<Rightarrow> event list \<Rightarrow> event list \<Rightarrow> bool" where
  "consistent L h [] = True"
| "consistent L h (Call c a k r # evs) =
     (L h c a k = r \<and> consistent L (h @ [Call c a k r]) evs)"
| "consistent L h (Print a k # evs) = consistent L (h @ [Print a k]) evs"

text \<open>The calls made to one callee, in order: arguments, keyword arguments, answer.\<close>

fun calls_of ::
  "callee \<Rightarrow> event list \<Rightarrow> (val list \<times> (string \<times> val) list \<times> (err + val)) list" where
  "calls_of c [] = []"
| "calls_of c (Call c' a k r # evs) =
     (if c' = c then (a, k, r) # calls_of c evs else calls_of c evs)"
| "calls_of c (Print a k # evs) = calls_of c evs"

text \<open>
  The constants of the notebook in the arguments of a call: the basis \<^verbatim>\<open>'sto-3g'\<close> of the
  molecule, the threshold \<^verbatim>\<open>1e-6\<close> and the single Trotter step of the UCCSD ansatz, the
  same threshold as cutoff of the ranking, and \<^verbatim>\<open>n_ents = 1\<close> as the number of
  entanglers asked for. Other calls and prints pass none of them.
\<close>

fun has_constants :: "event \<Rightarrow> bool" where
  "has_constants (Call c a k r) =
     (if c = Meth ''Molecule'' then map_of k ''basis_set'' = Some (VStr ''sto-3g'')
      else if c = Meth ''make_uccsd_ansatz''
        then map_of k ''threshold'' = Some (VFlt 1 (- 6))
             \<and> map_of k ''trotter_steps'' = Some (VInt 1)
      else if c = Fn [''utility'', ''generate_QCC_gradient_groupings'']
        then map_of k ''cutoff'' = Some (VFlt 1 (- 6))
      else if c = Fn [''utility'', ''get_QCC_entanglers'']
        then (case a of [ranked, n, q] \<Rightarrow> n = VInt 1 | _ \<Rightarrow> False)
      else True)"
| "has_constants (Print a k) = True"

subsection \<open>Libraries to run the notebook against\<close>

text \<open>
  A stand-in for the libraries, with the answers of the run recorded in the notebook's
  outputs for H2 (four qubits, two electrons, one grouping, one entangler, one
  variable). It does not look at the history. Its module \<^verbatim>\<open>utility\<close> exports the names
  the notebook uses, and \<^verbatim>\<open>np\<close> and \<^verbatim>\<open>tq\<close>; every method the notebook calls is there.
\<close>

definition stub_methods :: "string list" where
  "stub_methods =
     [''Molecule'', ''make_hamiltonian'', ''make_uccsd_ansatz'', ''ExpectationValue'',
      ''extract_variables'', ''minimize'', ''to_openfermion'']"

definition stub_answers :: "callee \<Rightarrow> val list \<Rightarrow> (string \<times> val) list \<Rightarrow> err + val" where
  "stub_answers c args kws =
     (case c of
        Import m \<Rightarrow> Inr VNone
      | ImportStar m \<Rightarrow> Inr (VList (map VStr (''np'' # ''tq'' # helper_names)))
      | GetAttr a \<Rightarrow>
          if a = ''quantumchemistry'' then Inr (VRef [''tequila'', ''quantumchemistry''])
          else if a = ''n_orbitals'' then Inr (VInt 2)
          else if a = ''n_electrons'' then Inr (VInt 2)
          else if a \<in> set stub_methods then Inr (VObj 0)
          else Inl (AttributeError a)
      | Meth m \<Rightarrow>
          if m = ''Molecule'' then Inr (VObj 1)
          else if m = ''make_hamiltonian'' then Inr (VObj 2)
          else if m = ''make_uccsd_ansatz'' then Inr (VObj 3)
          else if m = ''ExpectationValue'' then Inr (VObj 4)
          else if m = ''extract_variables'' then Inr (VList [VStr ''tau_0''])
          else if m = ''minimize'' then Inr (VObj 5)
          else if m = ''to_openfermion'' then Inr (VObj 6)
          else Inl (LibError 0)
      | Fn p \<Rightarrow>
          if p = [''utility'', ''get_molecular_data''] then Inr (VStr ''h2 at 2 Angstrom'')
          else if p = [''utility'', ''hf_occ'']
            then Inr (VList [VInt 1, VInt 1, VInt 0, VInt 0])
          else if p = [''utility'', ''generate_QCC_gradient_groupings'']
            then Inr (VList [VTuple [VList [VStr ''X0 Y1 X2 X3''], VFlt 2591 (- 4)]])
          else if p = [''utility'', ''get_QCC_entanglers'']
            then Inr (VList [VStr ''X0 Y1 X2 X3''])
          else if p = [''utility'', ''construct_QMF_ansatz''] then Inr (VObj 7)
          else if p = [''utility'', ''construct_QCC_ansatz''] then Inr (VObj 8)
          else if p = [''utility'', ''init_qcc_params'']
            then Inr (VDict [(VStr ''tau_0'', VFlt 0 0)])
          else Inl (LibError 0)
      | Op bop \<Rightarrow> Inr (VObj 9))"

definition stub_lib :: lib where
  "stub_lib h = stub_answers"

text \<open>The same library, except that building the Hamiltonian raises.\<close>

definition failing_lib :: lib where
  "failing_lib h c args kws =
     (if c = Meth ''make_hamiltonian'' then Inl (LibError 1) else stub_answers c args kws)"

text \<open>The same library, except that \<^verbatim>\<open>tequila\<close> has no \<^verbatim>\<open>minimize\<close>.\<close>

definition lacking_lib :: lib where
  "lacking_lib h c args kws =
     (if c = GetAttr ''minimize'' then Inl (AttributeError ''minimize'')
      else stub_answers c args kws)"

text \<open>The same library, except that \<^verbatim>\<open>utility\<close> does not export \<^verbatim>\<open>init_qcc_params\<close>.\<close>

definition unexporting_lib :: lib where
  "unexporting_lib h c args kws =
     (if c = ImportStar ''utility'' then Inr (VList (map VStr (butlast helper_names)))
      else stub_answers c args kws)"

text \<open>The same library, except that it raises once a hundred events have passed.\<close>

definition tiring_lib :: lib where
  "tiring_lib h c args kws =
     (if 100 < length h then Inl (LibError 2) else stub_answers c args kws)"

text \<open>
  The UCC cell with the construction of the Hamiltonian wrapped in an exception handler
  that prints a message and goes on, and the script made of the setup cell and this
  cell: what failure recovery would look like.
\<close>

definition cell_guarded :: cell where
  "cell_guarded = Code
     [SAssign ''xyz_data'' xyz_expr,
      SAssign ''molecule'' molecule_expr,
      STry [SAssign ''H'' (MCall (Name ''molecule'') ''make_hamiltonian'' [] [])]
           [SExpr (FCall ''print'' [Str ''no Hamiltonian''] [])]]"

definition guarded_script :: "cell list" where
  "guarded_script = [cell_setup, cell_guarded]"

subsection \<open>Auxiliary notions for the proofs\<close>

definition err_of :: "'e + 'a \<Rightarrow> 'e option" where
  "err_of r = (case r of Inl e \<Rightarrow> Some e | Inr v \<Rightarrow> None)"

definition fail_of :: "('e \<times> 's) + 'a \<Rightarrow> 'e option" where
  "fail_of r = (case r of Inl (e, s) \<Rightarrow> Some e | Inr v \<Rightarrow> None)"

definition clean :: "event list \<Rightarrow> bool" where
  "clean evs = list_all (\<lambda>ev. \<not> failed ev) evs"

text \<open>
  A trace ends well for an outcome when no call in it failed, or when the outcome is an
  exception, the last event is the call that raised it, and no call before it failed.
\<close>

definition ends_well :: "err option \<Rightarrow> event list \<Rightarrow> bool" where
  "ends_well r evs =
     (case r of
        None \<Rightarrow> clean evs
      | Some e \<Rightarrow> clean evs \<or> (\<exists>pre c a k. evs = pre @ [Call c a k (Inl e)] \<and> clean pre))"

text \<open>
  What holds of the namespace throughout a run of the notebook: \<^verbatim>\<open>print\<close> is the
  built-in, a name of \<open>helper_names\<close> is unbound or the name of \<^verbatim>\<open>utility\<close>, and the
  constants \<open>bs\<close> assigned so far have their values.
\<close>

definition names_ok :: "state \<Rightarrow> bool" where
  "names_ok st =
     (env st ''print'' = Some (VRef [''builtins'', ''print''])
      \<and> list_all (\<lambda>f. env st f = None \<or> env st f = Some (VRef [''utility'', f])) helper_names)"

definition holds :: "(string \<times> val) list \<Rightarrow> state \<Rightarrow> bool" where
  "holds bs st = (names_ok st \<and> list_all (\<lambda>b. env st (fst b) = Some (snd b)) bs)"

text \<open>
  \<open>keeps L P ss Q\<close>: run in a state of \<open>P\<close>, the statements \<open>ss\<close> make only calls that pass
  the constants, whether they fail or not, and leave a state of \<open>Q\<close> when they do not.
\<close>

definition keeps :: "lib \<Rightarrow> (state \<Rightarrow> bool) \<Rightarrow> stmt list \<Rightarrow> (state \<Rightarrow> bool) \<Rightarrow> bool" where
  "keeps L P ss Q =
     (\<forall>st h. P st \<longrightarrow>
        list_all has_constants (snd (exec_block L st h ss))
        \<and> (\<forall>st1 t1. exec_block L st h ss = (Inr st1, t1) \<longrightarrow> Q st1))"

text \<open>The constants the notebook assigns, the latest first.\<close>

definition constants :: "(string \<times> val) list" where
  "constants =
     [(''n_ents'', VInt 1), (''trotter_steps'', VInt 1), (''basis'', VStr ''sto-3g''),
      (''threshold'', VFlt 1 (- 6))]"

subsection \<open>The two workflows\<close>

text \<open>
  The notebook is the UCC workflow (the setup cells and the UCC cell) followed by the QCC
  workflow (the ranking cell and the QCC VQE cell).
\<close>

definition ucc_workflow :: "cell list" where
  "ucc_workflow = [Markdown, cell_setup, Markdown, cell_trotter, Markdown, cell_ucc]"

definition qcc_workflow :: "cell list" where
  "qcc_workflow = [Markdown, cell_qcc_ranking, Markdown, cell_qcc_vqe, cell_empty]"

text \<open>A run completes when no exception ended it.\<close>

definition completes :: "(err + state) \<times> event list \<Rightarrow> bool" where
  "completes r = (case fst r of Inl e \<Rightarrow> False | Inr st \<Rightarrow> True)"

subsection \<open>Stages of a VQE calculation\<close>

datatype stage = Configure | Hamiltonian | Ansatz | Objective | Minimize

text \<open>
  The stage a call belongs to: the molecule is configured by \<^verbatim>\<open>get_molecular_data\<close> and
  \<^verbatim>\<open>Molecule\<close>, the Hamiltonian built by \<^verbatim>\<open>make_hamiltonian\<close>, the ansatz by
  \<^verbatim>\<open>make_uccsd_ansatz\<close>, \<^verbatim>\<open>construct_QMF_ansatz\<close> or \<^verbatim>\<open>construct_QCC_ansatz\<close>, the
  objective by \<^verbatim>\<open>ExpectationValue\<close>, and the minimisation done by \<^verbatim>\<open>minimize\<close>. Other
  calls and prints belong to no stage.
\<close>

fun stage_of :: "event \<Rightarrow> stage option" where
  "stage_of (Call c a k r) =
     (if c = Fn [''utility'', ''get_molecular_data''] \<or> c = Meth ''Molecule''
        then Some Configure
      else if c = Meth ''make_hamiltonian'' then Some Hamiltonian
      else if c = Meth ''make_uccsd_ansatz'' \<or> c = Fn [''utility'', ''construct_QMF_ansatz'']
              \<or> c = Fn [''utility'', ''construct_QCC_ansatz'']
        then Some Ansatz
      else if c = Meth ''ExpectationValue'' then Some Objective
      else if c = Meth ''minimize'' then Some Minimize
      else None)"
| "stage_of (Print a k) = None"

fun stages :: "event list \<Rightarrow> stage list" where
  "stages [] = []"
| "stages (ev # evs) = (case stage_of ev of None \<Rightarrow> stages evs | Some s \<Rightarrow> s # stages evs)"

text \<open>The calls of a run that belong to a stage, in the order they were made.\<close>

definition stage_calls :: "event list \<Rightarrow> event list" where
  "stage_calls t = filter (\<lambda>ev. stage_of ev \<noteq> None) t"

subsection \<open>Values computed in a run\<close>

text \<open>
  \<open>computes t bop a b v\<close>: in the run \<open>t\<close>, \<open>v\<close> is the value of \<open>a bop b\<close>, computed on
  integers, or else the answer of the library to the operator.
\<close>

definition computes :: "event list \<Rightarrow> binop \<Rightarrow> val \<Rightarrow> val \<Rightarrow> val \<Rightarrow> bool" where
  "computes t bop a b v =
     (case arith bop a b of
        Some w \<Rightarrow> v = w
      | None \<Rightarrow> Call (Op bop) [a, b] [] (Inr v) \<in> set t)"

text \<open>An event agrees with a library that does not look at the history.\<close>

fun answers ::
  "(callee \<Rightarrow> val list \<Rightarrow> (string \<times> val) list \<Rightarrow> err + val) \<Rightarrow> event \<Rightarrow> bool" where
  "answers f (Call c a k r) = (f c a k = r)"
| "answers f (Print a k) = True"

text \<open>
  The dictionary \<^verbatim>\<open>{k: 0.0 for k in vs}\<close>, built on top of \<open>acc\<close>: what the comprehension
  of the UCC cell evaluates to.
\<close>

definition zeros :: "val list \<Rightarrow> (val \<times> val) list \<Rightarrow> (val \<times> val) list" where
  "zeros vs acc = fold (\<lambda>k d. dict_set d k (VFlt 0 0)) vs acc"

subsection \<open>The helper that picks the entanglers\<close>

text \<open>
  Modelled from the spec: \<^verbatim>\<open>get_QCC_entanglers\<close>, a function of \<^verbatim>\<open>utility.py\<close>, which is not
  among the sources. Asked for \<open>n\<close> entanglers of a ranking (\<^verbatim>\<open>n_ents\<close>, the number of
  entanglers to enter the ansatz), it returns exactly \<open>n\<close>, taken from the top of the
  ranking: the first from the first grouping, the second from the next, and so on. How
  an entangler is taken from a grouping is not described, and is the parameter
  \<open>from_grouping\<close>.
\<close>

definition top_entanglers :: "(val \<Rightarrow> val \<Rightarrow> bool) \<Rightarrow> val \<Rightarrow> val \<Rightarrow> val \<Rightarrow> bool" where
  "top_entanglers from_grouping ranked n ents =
     (case iterate ranked of
        Inl e \<Rightarrow> False
      | Inr groups \<Rightarrow>
          (case iterate ents of
             Inl e \<Rightarrow> False
           | Inr es \<Rightarrow>
               as_int n = Some (int (length es)) \<and> length es \<le> length groups
               \<and> list_all2 from_grouping es (take (length es) groups)))"

text \<open>An event in which \<^verbatim>\<open>get_QCC_entanglers\<close>, if it is the callee and returns, does so.\<close>

fun as_specified :: "(val \<Rightarrow> val \<Rightarrow> bool) \<Rightarrow> event \<Rightarrow> bool" where
  "as_specified from_grouping (Call c a k r) =
     (if c = Fn [''utility'', ''get_QCC_entanglers'']
      then (case r of
              Inl e \<Rightarrow> True
            | Inr ents \<Rightarrow>
                (case a of
                   [ranked, n, q] \<Rightarrow> top_entanglers from_grouping ranked n ents
                 | _ \<Rightarrow> False))
      else True)"
| "as_specified from_grouping (Print a k) = True"


subsection \<open>The events of a complete run\<close>

text \<open>
  The events a binary operator adds when it evaluates to \<open>v\<close>, and what \<open>v\<close> then is; the
  state after a loop over \<open>vs\<close> with variable \<open>x\<close> whose body binds nothing.
\<close>

definition op_events :: "binop \<Rightarrow> val \<Rightarrow> val \<Rightarrow> val \<Rightarrow> event list" where
  "op_events bop a b v =
     (case arith bop a b of Some w \<Rightarrow> [] | None \<Rightarrow> [Call (Op bop) [a, b] [] (Inr v)])"

definition op_value :: "binop \<Rightarrow> val \<Rightarrow> val \<Rightarrow> val \<Rightarrow> bool" where
  "op_value bop a b v = (case arith bop a b of Some w \<Rightarrow> v = w | None \<Rightarrow> True)"

definition bind_last :: "state \<Rightarrow> string \<Rightarrow> val list \<Rightarrow> state" where
  "bind_last st x vs = (if vs = [] then st else st\<lparr>env := (env st)(x \<mapsto> last vs)\<rparr>)"

text \<open>
  The events of each part of the notebook when nothing raises, as functions of the
  library's answers. The answers \<open>b\<close> are the bound methods.
\<close>

definition import_events :: "val \<Rightarrow> val \<Rightarrow> val \<Rightarrow> event list" where
  "import_events i1 i2 i3 =
     [Call (Import ''numpy'') [] [] (Inr i1),
      Call (Import ''tequila'') [] [] (Inr i2),
      Call (ImportStar ''utility'') [] [] (Inr i3)]"

definition molecule_events :: "val \<Rightarrow> val \<Rightarrow> val \<Rightarrow> val \<Rightarrow> event list" where
  "molecule_events xyz q b mol =
     [Call (Fn [''utility'', ''get_molecular_data'']) [VStr ''h2'']
        [(''geometry'', VInt 2), (''xyz_format'', VBool True)] (Inr xyz),
      Call (GetAttr ''quantumchemistry'') [VRef [''tequila'']] [] (Inr q),
      Call (GetAttr ''Molecule'') [q] [] (Inr b),
      Call (Meth ''Molecule'') [q]
        [(''geometry'', xyz), (''basis_set'', VStr ''sto-3g'')] (Inr mol)]"

definition ucc_events ::
  "val \<Rightarrow> val \<Rightarrow> val \<Rightarrow> val \<Rightarrow> val \<Rightarrow> val \<Rightarrow> val \<Rightarrow> val \<Rightarrow> val \<Rightarrow> val \<Rightarrow> val list \<Rightarrow> val
   \<Rightarrow> event list" where
  "ucc_events mol b2 H b3 U b4 E b5 b6 vars vs res =
     [Call (GetAttr ''make_hamiltonian'') [mol] [] (Inr b2),
      Call (Meth ''make_hamiltonian'') [mol] [] (Inr H),
      Call (GetAttr ''make_uccsd_ansatz'') [mol] [] (Inr b3),
      Call (Meth ''make_uccsd_ansatz'') [mol]
        [(''initial_amplitudes'', VStr ''mp2''), (''threshold'', VFlt 1 (- 6)),
         (''trotter_steps'', VInt 1)] (Inr U),
      Call (GetAttr ''ExpectationValue'') [VRef [''tequila'']] [] (Inr b4),
      Call (Meth ''ExpectationValue'') [VRef [''tequila'']]
        [(''H'', H), (''U'', U)] (Inr E),
      Call (GetAttr ''minimize'') [VRef [''tequila'']] [] (Inr b5),
      Call (GetAttr ''extract_variables'') [E] [] (Inr b6),
      Call (Meth ''extract_variables'') [E] [] (Inr vars),
      Call (Meth ''minimize'') [VRef [''tequila'']]
        [(''objective'', E), (''method'', VStr ''BFGS''),
         (''initial_values'', VDict (zeros vs [])), (''tol'', VFlt 1 (- 6))] (Inr res)]"

definition ranking_events ::
  "val \<Rightarrow> val \<Rightarrow> val \<Rightarrow> val \<Rightarrow> val \<Rightarrow> val \<Rightarrow> val \<Rightarrow> val \<Rightarrow> val \<Rightarrow> val \<Rightarrow> val \<Rightarrow> val
   \<Rightarrow> val list \<Rightarrow> val \<Rightarrow> val \<Rightarrow> val \<Rightarrow> val list \<Rightarrow> event list" where
  "ranking_events mol n1 nq1 ne hf b2 H b3 ofH n2 nq2 ranked mags n3 nq3 ents entl =
     [Call (GetAttr ''n_orbitals'') [mol] [] (Inr n1)]
     @ op_events Mult (VInt 2) n1 nq1
     @ [Call (GetAttr ''n_electrons'') [mol] [] (Inr ne),
        Call (Fn [''utility'', ''hf_occ'']) [nq1, ne] [] (Inr hf),
        Call (GetAttr ''make_hamiltonian'') [mol] [] (Inr b2),
        Call (Meth ''make_hamiltonian'') [mol] [] (Inr H),
        Call (GetAttr ''to_openfermion'') [H] [] (Inr b3),
        Call (Meth ''to_openfermion'') [H] [] (Inr ofH),
        Call (GetAttr ''n_orbitals'') [mol] [] (Inr n2)]
     @ op_events Mult (VInt 2) n2 nq2
     @ [Call (Fn [''utility'', ''generate_QCC_gradient_groupings'']) [ofH, nq2, hf]
          [(''cutoff'', VFlt 1 (- 6))] (Inr ranked),
        Print [VStr ''Grouping gradient magnitudes:''] []]
     @ map (\<lambda>m. Print [m] []) mags
     @ [Call (GetAttr ''n_orbitals'') [mol] [] (Inr n3)]
     @ op_events Mult (VInt 2) n3 nq3
     @ [Call (Fn [''utility'', ''get_QCC_entanglers'']) [ranked, VInt 1, nq3] [] (Inr ents),
        Print [VStr (CHR 0x0A # ''Generated entanglers:'')] []]
     @ map (\<lambda>e. Print [e] []) entl"

definition vqe_events ::
  "val \<Rightarrow> val \<Rightarrow> val \<Rightarrow> val \<Rightarrow> val \<Rightarrow> val \<Rightarrow> val \<Rightarrow> val \<Rightarrow> val \<Rightarrow> val \<Rightarrow> val \<Rightarrow> val \<Rightarrow> val
   \<Rightarrow> val \<Rightarrow> val \<Rightarrow> val \<Rightarrow> event list" where
  "vqe_events mol ents hf H n4 nq4 umf uent uqcc b4 E b6 vars iv b5 res =
     [Call (GetAttr ''n_orbitals'') [mol] [] (Inr n4)]
     @ op_events Mult (VInt 2) n4 nq4
     @ [Call (Fn [''utility'', ''construct_QMF_ansatz'']) [] [(''n_qubits'', nq4)] (Inr umf),
        Call (Fn [''utility'', ''construct_QCC_ansatz'']) [ents] [] (Inr uent)]
     @ op_events Add umf uent uqcc
     @ [Call (GetAttr ''ExpectationValue'') [VRef [''tequila'']] [] (Inr b4),
        Call (Meth ''ExpectationValue'') [VRef [''tequila'']]
          [(''H'', H), (''U'', uqcc)] (Inr E),
        Call (GetAttr ''extract_variables'') [E] [] (Inr b6),
        Call (Meth ''extract_variables'') [E] [] (Inr vars),
        Call (Fn [''utility'', ''init_qcc_params'']) [hf, vars] [] (Inr iv),
        Call (GetAttr ''minimize'') [VRef [''tequila'']] [] (Inr b5),
        Call (Meth ''minimize'') [VRef [''tequila'']]
          [(''objective'', E), (''method'', VStr ''BFGS''),
           (''initial_values'', iv), (''tol'', VFlt 1 (- 6))] (Inr res)]"

definition ucc_run :: "event list \<Rightarrow> bool" where
  "ucc_run t =
     (\<exists>i1 i2 i3 xyz q b1 mol b2 H b3 U b4 E b5 b6 vars vs res.
        t = import_events i1 i2 i3 @ molecule_events xyz q b1 mol
            @ ucc_events mol b2 H b3 U b4 E b5 b6 vars vs res
        \<and> iterate vars = Inr vs \<and> hashable_all vs)"

definition complete_run :: "event list \<Rightarrow> bool" where
  "complete_run t =
     (\<exists>i1 i2 i3 xyz q b1 mol b2 H b3 U b4 E b5 b6 vars vs res
        xyz' q' c1 mol' n1 nq1 ne hf c2 H' c3 ofH n2 nq2 ranked groups mags n3 nq3 ents entl
        n4 nq4 umf uent uqcc c4 E' c6 vars' iv c5 res'.
        t = import_events i1 i2 i3 @ molecule_events xyz q b1 mol
            @ ucc_events mol b2 H b3 U b4 E b5 b6 vars vs res
            @ molecule_events xyz' q' c1 mol'
            @ ranking_events mol' n1 nq1 ne hf c2 H' c3 ofH n2 nq2 ranked mags n3 nq3 ents entl
            @ vqe_events mol' ents hf H' n4 nq4 umf uent uqcc c4 E' c6 vars' iv c5 res'
        \<and> iterate vars = Inr vs \<and> hashable_all vs
        \<and> op_value Mult (VInt 2) n1 nq1 \<and> op_value Mult (VInt 2) n2 nq2
        \<and> iterate ranked = Inr groups
        \<and> map (\<lambda>g. subscript g (VInt 1)) groups = map Inr mags
        \<and> op_value Mult (VInt 2) n3 nq3
        \<and> iterate ents = Inr entl
        \<and> op_value Mult (VInt 2) n4 nq4 \<and> op_value Add umf uent uqcc)"

section \<open>Where the notebook's code is\<close>

lemmas cell_defs =
  notebook_def cell_setup_def cell_trotter_def cell_ucc_def cell_qcc_ranking_def
  cell_qcc_vqe_def cell_empty_def molecule_expr_def xyz_expr_def n_qubits_expr_def

text \<open>
  C4, as stated: the calls and print statements of the notebook are inside exactly two
  cells. This fails: three cells of the notebook hold calls.
\<close>

theorem calls_in_two_cells_counterexample:
  "length (filter cell_has_call notebook) \<noteq> 2"
  by (simp add: cell_defs)

text \<open>
  C4, amended: the calls of the notebook are inside three code cells, the UCC cell, the
  QCC ranking cell and the QCC VQE cell, each a sequence of assignments, prints and
  printing loops; the only other cells with code are the two setup cells, which hold
  imports and assignments of constants and no call.
\<close>

theorem calls_in_three_cells:
  "filter cell_has_call notebook = [cell_ucc, cell_qcc_ranking, cell_qcc_vqe]
   \<and> list_all is_sequence_stmt (concat (map cell_stmts (filter cell_has_call notebook)))
   \<and> filter cell_has_code notebook
       = [cell_setup, cell_trotter, cell_ucc, cell_qcc_ranking, cell_qcc_vqe]
   \<and> list_all is_setup_stmt (cell_stmts cell_setup @ cell_stmts cell_trotter)"
  by (simp add: cell_defs)

section \<open>Exceptions end the run\<close>

lemma clean_simps [simp]: "clean []" "clean (t1 @ t2) = (clean t1 \<and> clean t2)"
  "clean [ev] = (\<not> failed ev)"
  by (auto simp: clean_def)

lemma err_of_simps [simp]: "err_of (Inl e) = Some e" "err_of (Inr v) = None"
  by (simp_all add: err_of_def)

lemma fail_of_simps [simp]: "fail_of (Inl (e, s)) = Some e" "fail_of (Inr v) = None"
  by (simp_all add: fail_of_def)

lemma ends_well_Nil [simp]: "ends_well r []"
  by (simp add: ends_well_def split: option.splits)

lemma ends_well_None [simp]: "ends_well None t = clean t"
  by (simp add: ends_well_def)

lemma ends_well_seq: "clean t1 \<Longrightarrow> ends_well r t2 \<Longrightarrow> ends_well r (t1 @ t2)"
  by (cases r) (auto simp: ends_well_def)

lemma ends_well_clean: "clean t \<Longrightarrow> ends_well r t"
  by (simp add: ends_well_def split: option.splits)

lemma ends_well_call: "ends_well (err_of (L h c a k)) [Call c a k (L h c a k)]"
  by (cases "L h c a k") (simp_all add: ends_well_def)

lemma ends_well_call_lib: "call_lib L h c a k = (r, t) \<Longrightarrow> ends_well (err_of r) t"
  using ends_well_call [of L h c a k] by (auto simp: call_lib_def)

lemma ends_well_call_value: "call_value L h f a k = (r, t) \<Longrightarrow> ends_well (err_of r) t"
  by (auto simp: call_value_def split: val.splits if_splits dest: ends_well_call_lib)

lemma call_lib_clean: "call_lib L h c a k = (Inr v, t) \<Longrightarrow> clean t"
  by (auto simp: call_lib_def)

lemma ends_well_truth: "truth L h v = (r, t) \<Longrightarrow> ends_well (err_of r) t"
  by (auto simp: truth_def call_lib_def ends_well_def split: val.splits sum.splits)

lemma ends_wellI:
  "(\<And>r t. f = (r, t) \<Longrightarrow> ends_well (err_of r) t) \<Longrightarrow> ends_well (err_of (fst f)) (snd f)"
  by (cases f) simp

lemma eval_args_ends_well:
  assumes "\<And>e h. e \<in> set es \<Longrightarrow> ends_well (err_of (fst (eval L st h e))) (snd (eval L st h e))"
  shows "ends_well (err_of (fst (eval_args L st h es))) (snd (eval_args L st h es))"
  using assms
proof (induction es arbitrary: h)
  case (Cons e es)
  have 1: "ends_well (err_of (fst (eval L st h e))) (snd (eval L st h e))"
    by (rule Cons.prems) simp
  have 2: "ends_well (err_of (fst (eval_args L st h' es))) (snd (eval_args L st h' es))" for h'
    by (rule Cons.IH) (rule Cons.prems, simp)
  show ?case
    using 1 2 [of "h @ snd (eval L st h e)"]
    by (auto split: prod.splits sum.splits intro!: ends_well_seq intro: ends_well_clean)
qed simp

lemma eval_kws_ends_well:
  assumes "\<And>k e h. (k, e) \<in> set kes
             \<Longrightarrow> ends_well (err_of (fst (eval L st h e))) (snd (eval L st h e))"
  shows "ends_well (err_of (fst (eval_kws L st h kes))) (snd (eval_kws L st h kes))"
  using assms
proof (induction kes arbitrary: h)
  case (Cons ke kes)
  obtain k e where ke: "ke = (k, e)" by (cases ke)
  have 1: "ends_well (err_of (fst (eval L st h e))) (snd (eval L st h e))"
    by (rule Cons.prems [of k]) (simp add: ke)
  have tl: "ends_well (err_of (fst (eval L st h e))) (snd (eval L st h e))"
    if "(k, e) \<in> set kes" for k e h
    using that Cons.prems [of k e h] by simp
  have 2: "ends_well (err_of (fst (eval_kws L st h' kes))) (snd (eval_kws L st h' kes))" for h'
    by (rule Cons.IH) (rule tl)
  show ?case
    unfolding ke using 1 2 [of "h @ snd (eval L st h e)"]
    by (auto split: prod.splits sum.splits intro!: ends_well_seq intro: ends_well_clean)
qed simp

lemma comp_loop_ends_well:
  assumes "\<And>h st. ends_well (err_of (fst (eval L st h ke))) (snd (eval L st h ke))"
      and "\<And>h st. ends_well (err_of (fst (eval L st h ve))) (snd (eval L st h ve))"
  shows "ends_well (err_of (fst (comp_loop L st h x ke ve vs acc)))
           (snd (comp_loop L st h x ke ve vs acc))"
proof (induction vs arbitrary: h acc)
  case (Cons v vs)
  have K: "ends_well (err_of r) t" if "eval L st' h' ke = (r, t)" for st' h' r t
    using assms(1) [of st' h'] that by simp
  have V: "ends_well (err_of r) t" if "eval L st' h' ve = (r, t)" for st' h' r t
    using assms(2) [of st' h'] that by simp
  have C: "ends_well (err_of r) t" if "comp_loop L st h' x ke ve vs acc' = (r, t)" for h' acc' r t
    using Cons [of h' acc'] that by simp
  show ?case
    by (rule ends_wellI)
       (auto split: prod.splits sum.splits if_splits dest!: K V C
        intro!: ends_well_seq intro: ends_well_clean)
qed simp

lemma eval_ends_well:
  "ends_well (err_of (fst (eval L st h e))) (snd (eval L st h e))"
proof (induction e arbitrary: h st)
  case (Attr e a)
  show ?case
    using Attr [of st h]
    by (auto split: prod.splits sum.splits
        intro!: ends_well_seq intro: ends_well_call_lib ends_well_clean)
next
  case (FCall f args kws)
  have A: "ends_well (err_of (fst (eval_args L st h args))) (snd (eval_args L st h args))" for h
    using FCall(1) by (rule eval_args_ends_well)
  have K: "ends_well (err_of (fst (eval_kws L st h kws))) (snd (eval_kws L st h kws))" for h
    by (rule eval_kws_ends_well) (use FCall(2) in force)
  show ?case
    using A [of h] K [of "h @ snd (eval_args L st h args)"]
    by (auto split: prod.splits sum.splits
        intro!: ends_well_seq intro: ends_well_call_value ends_well_clean)
next
  case (MCall e m args kws)
  have A: "ends_well (err_of (fst (eval_args L st h args))) (snd (eval_args L st h args))" for h
    using MCall(2) by (rule eval_args_ends_well)
  have K: "ends_well (err_of (fst (eval_kws L st h kws))) (snd (eval_kws L st h kws))" for h
    by (rule eval_kws_ends_well) (use MCall(3) in force)
  have E: "ends_well (err_of r) t" if "eval L st h e = (r, t)" for r t
    using MCall(1) [of st h] that by simp
  have A': "ends_well (err_of r) t" if "eval_args L st h args = (r, t)" for h r t
    using A [of h] that by simp
  have K': "ends_well (err_of r) t" if "eval_kws L st h kws = (r, t)" for h r t
    using K [of h] that by simp
  show ?case
    by (rule ends_wellI)
       (auto split: prod.splits sum.splits dest!: E A' K'
        intro!: ends_well_seq intro: ends_well_call_lib ends_well_clean call_lib_clean)
next
  case (BinOp l bop r)
  show ?case
    using BinOp(1) [of st h] BinOp(2) [of st "h @ snd (eval L st h l)"]
    by (auto split: prod.splits sum.splits option.splits
        intro!: ends_well_seq intro: ends_well_call_lib ends_well_clean)
next
  case (Subscript e i)
  show ?case
    using Subscript(1) [of st h] Subscript(2) [of st "h @ snd (eval L st h e)"]
    by (auto split: prod.splits sum.splits
        intro!: ends_well_seq intro: ends_well_clean)
next
  case (DictComp ke ve x it)
  have C: "ends_well (err_of r) t" if "comp_loop L st h x ke ve vs acc = (r, t)" for h vs acc r t
    using comp_loop_ends_well [of L ke ve st h x vs acc, OF DictComp(1,2)] that by simp
  have I: "ends_well (err_of r) t" if "eval L st h it = (r, t)" for r t
    using DictComp(3) [of st h] that by simp
  show ?case
    by (rule ends_wellI)
       (auto split: prod.splits sum.splits dest!: C I
        intro!: ends_well_seq intro: ends_well_clean)
qed simp_all

lemma eval_ends_wellD: "eval L st h e = (r, t) \<Longrightarrow> ends_well (err_of r) t"
  using eval_ends_well [of L st h e] by simp

lemma block_has_try_iff: "block_has_try ss = (\<exists>s \<in> set ss. stmt_has_try s)"
  by (induction ss) simp_all

lemma exec_block_ends_well:
  assumes "\<And>s h st r t. s \<in> set ss \<Longrightarrow> exec L st h s = (r, t) \<Longrightarrow> ends_well (fail_of r) t"
  shows "exec_block L st h ss = (r, t) \<Longrightarrow> ends_well (fail_of r) t"
  using assms
proof (induction ss arbitrary: h st r t)
  case (Cons s ss)
  have 1: "ends_well (fail_of r) t" if "exec L st h s = (r, t)" for h st r t
    using that by (rule Cons.prems(2) [rotated]) simp
  have 2: "ends_well (fail_of r) t" if "exec_block L st h ss = (r, t)" for h st r t
    using that by (rule Cons.IH) (rule Cons.prems(2), simp_all)
  from Cons.prems(1) show ?case
    by (auto split: prod.splits sum.splits dest!: 1 2
        intro!: ends_well_seq intro: ends_well_clean)
qed simp

lemma for_loop_ends_well:
  assumes "\<And>h st r t. exec_block L st h body = (r, t) \<Longrightarrow> ends_well (fail_of r) t"
  shows "for_loop L st h x vs body = (r, t) \<Longrightarrow> ends_well (fail_of r) t"
proof (induction vs arbitrary: h st r t)
  case (Cons v vs)
  from Cons.prems show ?case
    by (auto split: prod.splits sum.splits dest!: assms Cons.IH
        intro!: ends_well_seq intro: ends_well_clean)
qed simp

lemma exec_ends_well:
  "\<not> stmt_has_try s \<Longrightarrow> exec L st h s = (r, t) \<Longrightarrow> ends_well (fail_of r) t"
proof (induction s arbitrary: h st r t)
  case (SImport m a)
  then show ?case
    by (auto split: prod.splits sum.splits dest!: ends_well_call_lib)
next
  case (SImportStar m)
  then show ?case
    by (auto split: prod.splits sum.splits dest!: ends_well_call_lib)
next
  case (SAssign x e)
  then show ?case
    by (auto split: prod.splits sum.splits dest!: eval_ends_wellD)
next
  case (SExpr e)
  then show ?case
    by (auto split: prod.splits sum.splits dest!: eval_ends_wellD)
next
  case (SFor x it body)
  have B: "ends_well (fail_of r) t" if "exec_block L st h body = (r, t)" for h st r t
    using that
    by (rule exec_block_ends_well [rotated]) (use SFor in \<open>auto simp: block_has_try_iff\<close>)
  have F: "ends_well (fail_of r) t" if "for_loop L st h x vs body = (r, t)" for h st vs r t
    using that by (rule for_loop_ends_well [rotated]) (rule B)
  from SFor.prems(2) show ?case
    by (auto split: prod.splits sum.splits dest!: eval_ends_wellD F
        intro!: ends_well_seq intro: ends_well_clean)
next
  case (SIf c yes no)
  have Y: "ends_well (fail_of r) t" if "exec_block L st h yes = (r, t)" for h st r t
    using that
    by (rule exec_block_ends_well [rotated]) (use SIf in \<open>auto simp: block_has_try_iff\<close>)
  have N: "ends_well (fail_of r) t" if "exec_block L st h no = (r, t)" for h st r t
    using that
    by (rule exec_block_ends_well [rotated]) (use SIf in \<open>auto simp: block_has_try_iff\<close>)
  from SIf.prems(2) show ?case
    by (auto split: prod.splits sum.splits if_splits dest!: eval_ends_wellD ends_well_truth Y N
        intro!: ends_well_seq intro: ends_well_clean)
next
  case (STry body handler)
  then show ?case by simp
next
  case (SRaise e)
  then show ?case
    by (auto split: prod.splits sum.splits val.splits dest!: eval_ends_wellD
        intro: ends_well_clean)
qed

lemma run_cells_ends_well:
  "\<not> list_ex cell_has_try cs \<Longrightarrow> run_cells L st h cs = (r, t) \<Longrightarrow> ends_well (fail_of r) t"
proof (induction cs arbitrary: h st r t)
  case (Cons c cs)
  show ?case
  proof (cases c)
    case Markdown
    with Cons show ?thesis by simp
  next
    case (Code ss)
    have B: "ends_well (fail_of r) t" if "exec_block L st h ss = (r, t)" for h st r t
      using that
      by (rule exec_block_ends_well [rotated])
         (rule exec_ends_well, use Cons.prems(1) Code in \<open>auto simp: block_has_try_iff\<close>)
    have R: "ends_well (fail_of r) t" if "run_cells L st h cs = (r, t)" for h st r t
      using that Cons.prems(1) by (intro Cons.IH) simp_all
    from Cons.prems(2) show ?thesis
      unfolding Code
      by (auto split: prod.splits sum.splits dest!: B R
          intro!: ends_well_seq intro: ends_well_clean)
  qed
qed simp

lemma run_ends_well:
  assumes "\<not> list_ex cell_has_try nb"
  shows "ends_well (err_of (fst (run L nb))) (snd (run L nb))"
proof -
  obtain r t where rt: "run_cells L initial [] nb = (r, t)"
    by (cases "run_cells L initial [] nb")
  from run_cells_ends_well [OF assms rt] rt show ?thesis
    by (cases r) (auto simp: run_def)
qed

lemma failed_last:
  assumes "ends_well (err_of r) t" and "Call c a k (Inl e) \<in> set t"
  shows "r = Inl e \<and> t \<noteq> [] \<and> last t = Call c a k (Inl e) \<and> clean (butlast t)"
proof (cases r)
  case (Inl e')
  with assms obtain pre c' a' k' where t: "t = pre @ [Call c' a' k' (Inl e')]" "clean pre"
    by (auto simp: ends_well_def clean_def list_all_iff)
  with assms(2) have "Call c a k (Inl e) = Call c' a' k' (Inl e')"
    by (auto simp: clean_def list_all_iff)
  with t Inl show ?thesis by simp
next
  case (Inr v)
  with assms show ?thesis by (auto simp: clean_def list_all_iff)
qed

text \<open>
  A script that wraps the construction of the Hamiltonian in an exception handler does
  recover: against the library whose \<^verbatim>\<open>make_hamiltonian\<close> raises, it prints its message
  and completes, with the failed call in the middle of its events. That a failed call
  ends the run is a property of the notebook, not of every script.
\<close>

lemma guarded_script_recovers:
  "completes (run failing_lib guarded_script)
   \<and> list_ex failed (butlast (snd (run failing_lib guarded_script)))"
  by code_simp

text \<open>
  Against the library whose \<^verbatim>\<open>tequila\<close> has no \<^verbatim>\<open>minimize\<close>, the run of the notebook ends
  at the lookup of \<^verbatim>\<open>tq.minimize\<close>, before the arguments of the call are evaluated:
  \<^verbatim>\<open>E.extract_variables\<close> is not called.
\<close>

lemma missing_attribute_before_arguments:
  "err_of (fst (run lacking_lib notebook)) = Some (AttributeError ''minimize'')
   \<and> calls_of (Meth ''extract_variables'') (snd (run lacking_lib notebook)) = []"
  by code_simp

text \<open>
  Against the library whose \<^verbatim>\<open>utility\<close> does not export \<^verbatim>\<open>init_qcc_params\<close>, the run ends at
  this name, again before the argument \<^verbatim>\<open>E.extract_variables()\<close> is evaluated: the only
  call of \<^verbatim>\<open>extract_variables\<close> is that of the UCC cell.
\<close>

lemma missing_name_before_arguments:
  "err_of (fst (run unexporting_lib notebook)) = Some (NameError ''init_qcc_params'')
   \<and> length (calls_of (Meth ''extract_variables'') (snd (run unexporting_lib notebook))) = 1"
  by code_simp

text \<open>
  C5: the notebook has no failure recovery. No cell has an exception handler, so that no
  library call is wrapped in one; no cell has a test, so that no result is checked
  before it is used; and whenever a library call raises during a run of the notebook,
  whatever the library, the run ends with that exception, the failed call is the last
  event of the run, and no call before it had failed: nothing was caught, and nothing ran
  after.
\<close>

theorem no_failure_recovery:
  "\<not> list_ex cell_has_try notebook
   \<and> \<not> list_ex cell_has_test notebook
   \<and> (\<forall>L c a k e. Call c a k (Inl e) \<in> set (snd (run L notebook)) \<longrightarrow>
         fst (run L notebook) = Inl e
         \<and> last (snd (run L notebook)) = Call c a k (Inl e)
         \<and> list_all (\<lambda>ev. \<not> failed ev) (butlast (snd (run L notebook))))"
proof -
  have s: "\<not> list_ex cell_has_try notebook" "\<not> list_ex cell_has_test notebook"
    by (simp_all add: cell_defs)
  have "fst (run L notebook) = Inl e
         \<and> last (snd (run L notebook)) = Call c a k (Inl e)
         \<and> list_all (\<lambda>ev. \<not> failed ev) (butlast (snd (run L notebook)))"
    if "Call c a k (Inl e) \<in> set (snd (run L notebook))" for L c a k e
    using failed_last [OF run_ends_well [OF s(1)] that] by (simp add: clean_def)
  with s show ?thesis by blast
qed

theorem no_failure_recovery_witness:
  "Call (Meth ''make_hamiltonian'') [VObj 1] [] (Inl (LibError 1))
     \<in> set (snd (run failing_lib notebook))
   \<and> fst (run failing_lib notebook) = Inl (LibError 1)
   \<and> last (snd (run failing_lib notebook))
       = Call (Meth ''make_hamiltonian'') [VObj 1] [] (Inl (LibError 1))"
proof -
  have m: "Call (Meth ''make_hamiltonian'') [VObj 1] [] (Inl (LibError 1))
             \<in> set (snd (run failing_lib notebook))"
    by code_simp
  from no_failure_recovery m show ?thesis by blast
qed

section \<open>The run depends only on the answers to the calls it makes\<close>

lemma consistent_append:
  "consistent L h (t1 @ t2) = (consistent L h t1 \<and> consistent L (h @ t1) t2)"
proof (induction t1 arbitrary: h)
  case (Cons ev t1)
  then show ?case by (cases ev) simp_all
qed simp

lemma call_lib_consistent:
  "call_lib L h c a k = (r, t) \<Longrightarrow> consistent L' h t \<Longrightarrow> call_lib L' h c a k = (r, t)"
  by (auto simp: call_lib_def)

lemma call_value_consistent:
  "call_value L h f a k = (r, t) \<Longrightarrow> consistent L' h t \<Longrightarrow> call_value L' h f a k = (r, t)"
  by (auto simp: call_value_def call_lib_def split: val.splits if_splits)

lemma call_value_consistent':
  "consistent L' h (snd (call_value L h f a k)) \<Longrightarrow> call_value L' h f a k = call_value L h f a k"
  by (auto simp: call_value_def call_lib_def split: val.splits if_splits)

lemma call_lib_consistent':
  "consistent L' h (snd (call_lib L h c a k)) \<Longrightarrow> call_lib L' h c a k = call_lib L h c a k"
  by (simp add: call_lib_def)

lemma eval_args_consistent:
  assumes "\<And>e h. e \<in> set es \<Longrightarrow> consistent L' h (snd (eval L st h e))
             \<Longrightarrow> eval L' st h e = eval L st h e"
  shows "consistent L' h (snd (eval_args L st h es)) \<Longrightarrow> eval_args L' st h es = eval_args L st h es"
  using assms
proof (induction es arbitrary: h)
  case (Cons e es)
  then show ?case
    by (auto simp: consistent_append split: prod.splits sum.splits)
qed simp

lemma eval_kws_consistent:
  assumes "\<And>k e h. (k, e) \<in> set kes \<Longrightarrow> consistent L' h (snd (eval L st h e))
             \<Longrightarrow> eval L' st h e = eval L st h e"
  shows "consistent L' h (snd (eval_kws L st h kes)) \<Longrightarrow> eval_kws L' st h kes = eval_kws L st h kes"
  using assms
proof (induction kes arbitrary: h)
  case (Cons ke kes)
  obtain k e where ke: "ke = (k, e)" by (cases ke)
  have IHe: "\<And>h. consistent L' h (snd (eval L st h e)) \<Longrightarrow> eval L' st h e = eval L st h e"
    using Cons.prems(2) [of k e] ke by simp
  have tl: "eval L' st h e = eval L st h e"
    if "(k, e) \<in> set kes" "consistent L' h (snd (eval L st h e))" for k e h
    using that Cons.prems(2) [of k e h] by simp
  have IHk: "eval_kws L' st h kes = eval_kws L st h kes"
    if "consistent L' h (snd (eval_kws L st h kes))" for h
    by (rule Cons.IH [OF that]) (rule tl)
  show ?case
    using Cons.prems(1) IHe IHk unfolding ke
    by (auto simp: consistent_append split: prod.splits sum.splits)
qed simp

lemma comp_loop_consistent:
  assumes "\<And>h st. consistent L' h (snd (eval L st h ke)) \<Longrightarrow> eval L' st h ke = eval L st h ke"
      and "\<And>h st. consistent L' h (snd (eval L st h ve)) \<Longrightarrow> eval L' st h ve = eval L st h ve"
  shows "consistent L' h (snd (comp_loop L st h x ke ve vs acc))
         \<Longrightarrow> comp_loop L' st h x ke ve vs acc = comp_loop L st h x ke ve vs acc"
  using assms
proof (induction vs arbitrary: h acc)
  case (Cons v vs)
  then show ?case
    by (auto simp: consistent_append split: prod.splits sum.splits if_splits)
qed simp

lemma eval_consistent:
  "consistent L' h (snd (eval L st h e)) \<Longrightarrow> eval L' st h e = eval L st h e"
proof (induction e arbitrary: h st)
  case (Attr e a)
  then show ?case
    by (auto simp: consistent_append call_lib_def split: prod.splits sum.splits)
next
  case (FCall f args kws)
  have A: "\<And>h. consistent L' h (snd (eval_args L st h args))
             \<Longrightarrow> eval_args L' st h args = eval_args L st h args"
    using FCall.IH(1) by (rule eval_args_consistent)
  have K: "\<And>h. consistent L' h (snd (eval_kws L st h kws))
             \<Longrightarrow> eval_kws L' st h kws = eval_kws L st h kws"
    by (rule eval_kws_consistent) (use FCall.IH(2) in force)
  show ?case
    using FCall.prems A K
    by (auto simp: consistent_append call_value_consistent' [of L' _ L]
             split: prod.splits sum.splits)
next
  case (MCall e m args kws)
  have A: "\<And>h. consistent L' h (snd (eval_args L st h args))
             \<Longrightarrow> eval_args L' st h args = eval_args L st h args"
    using MCall.IH(2) by (rule eval_args_consistent)
  have K: "\<And>h. consistent L' h (snd (eval_kws L st h kws))
             \<Longrightarrow> eval_kws L' st h kws = eval_kws L st h kws"
    by (rule eval_kws_consistent) (use MCall.IH(3) in force)
  show ?case
    using MCall.prems MCall.IH(1) A K
    by (auto simp: consistent_append call_lib_consistent' [of L' _ L]
             split: prod.splits sum.splits)
next
  case (BinOp l bop r)
  then show ?case
    by (auto simp: consistent_append call_lib_def split: prod.splits sum.splits option.splits)
next
  case (Subscript e i)
  then show ?case
    by (auto simp: consistent_append split: prod.splits sum.splits)
next
  case (DictComp ke ve x it)
  have C: "\<And>h vs acc. consistent L' h (snd (comp_loop L st h x ke ve vs acc))
         \<Longrightarrow> comp_loop L' st h x ke ve vs acc = comp_loop L st h x ke ve vs acc"
    using DictComp.IH(1,2) by (rule comp_loop_consistent)
  show ?case
    using DictComp.prems DictComp.IH(3) C
    by (auto simp: consistent_append split: prod.splits sum.splits)
qed simp_all


lemma truth_consistent:
  "consistent L' h (snd (truth L h v)) \<Longrightarrow> truth L' h v = truth L h v"
  by (auto simp: truth_def call_lib_def split: val.splits sum.splits)

lemma exec_block_consistent:
  assumes "\<And>s h st. s \<in> set ss \<Longrightarrow> consistent L' h (snd (exec L st h s))
             \<Longrightarrow> exec L' st h s = exec L st h s"
  shows "consistent L' h (snd (exec_block L st h ss)) \<Longrightarrow> exec_block L' st h ss = exec_block L st h ss"
  using assms
proof (induction ss arbitrary: h st)
  case (Cons s ss)
  then show ?case
    by (auto simp: consistent_append split: prod.splits sum.splits)
qed simp

lemma for_loop_consistent:
  assumes "\<And>h st. consistent L' h (snd (exec_block L st h body))
             \<Longrightarrow> exec_block L' st h body = exec_block L st h body"
  shows "consistent L' h (snd (for_loop L st h x vs body))
         \<Longrightarrow> for_loop L' st h x vs body = for_loop L st h x vs body"
  using assms
proof (induction vs arbitrary: h st)
  case (Cons v vs)
  then show ?case
    by (auto simp: consistent_append split: prod.splits sum.splits)
qed simp

lemma exec_consistent:
  "consistent L' h (snd (exec L st h s)) \<Longrightarrow> exec L' st h s = exec L st h s"
proof (induction s arbitrary: h st)
  case (SImport m a)
  then show ?case by (simp add: call_lib_def split: sum.splits)
next
  case (SImportStar m)
  then show ?case by (simp add: call_lib_def split: sum.splits)
next
  case (SAssign x e)
  then show ?case using eval_consistent [of L' h L st e]
    by (auto split: prod.splits sum.splits)
next
  case (SExpr e)
  then show ?case using eval_consistent [of L' h L st e]
    by (auto split: prod.splits sum.splits)
next
  case (SFor x it body)
  have B: "\<And>h st. consistent L' h (snd (exec_block L st h body))
             \<Longrightarrow> exec_block L' st h body = exec_block L st h body"
    using SFor.IH by (rule exec_block_consistent)
  have F: "\<And>h vs. consistent L' h (snd (for_loop L st h x vs body))
         \<Longrightarrow> for_loop L' st h x vs body = for_loop L st h x vs body"
    using B by (rule for_loop_consistent)
  show ?case
    using SFor.prems F eval_consistent [of L' h L st it]
    by (auto simp: consistent_append split: prod.splits sum.splits)
next
  case (SIf c yes no)
  have Y: "\<And>h st. consistent L' h (snd (exec_block L st h yes))
             \<Longrightarrow> exec_block L' st h yes = exec_block L st h yes"
    using SIf.IH(1) by (rule exec_block_consistent)
  have N: "\<And>h st. consistent L' h (snd (exec_block L st h no))
             \<Longrightarrow> exec_block L' st h no = exec_block L st h no"
    using SIf.IH(2) by (rule exec_block_consistent)
  show ?case
    using SIf.prems Y N eval_consistent [of L' h L st c]
    by (auto simp: consistent_append truth_consistent [of L' _ L]
             split: prod.splits sum.splits if_splits)
next
  case (STry body handler)
  have B: "\<And>h st. consistent L' h (snd (exec_block L st h body))
             \<Longrightarrow> exec_block L' st h body = exec_block L st h body"
    using STry.IH(1) by (rule exec_block_consistent)
  have H: "\<And>h st. consistent L' h (snd (exec_block L st h handler))
             \<Longrightarrow> exec_block L' st h handler = exec_block L st h handler"
    using STry.IH(2) by (rule exec_block_consistent)
  show ?case
    using STry.prems B H
    by (auto simp: consistent_append split: prod.splits sum.splits)
next
  case (SRaise e)
  then show ?case using eval_consistent [of L' h L st e]
    by (auto split: prod.splits sum.splits val.splits)
qed

lemma run_cells_consistent:
  "consistent L' h (snd (run_cells L st h cs)) \<Longrightarrow> run_cells L' st h cs = run_cells L st h cs"
proof (induction cs arbitrary: h st)
  case (Cons c cs)
  have B: "\<And>ss h st. consistent L' h (snd (exec_block L st h ss))
             \<Longrightarrow> exec_block L' st h ss = exec_block L st h ss"
    by (rule exec_block_consistent) (rule exec_consistent)
  show ?case
  proof (cases c)
    case Markdown
    with Cons show ?thesis by simp
  next
    case (Code ss)
    with Cons B [of h st ss] show ?thesis
      by (auto simp: consistent_append split: prod.splits sum.splits)
  qed
qed simp

lemma snd_run: "snd (run L nb) = snd (run_cells L initial [] nb)"
  by (simp add: run_def split: prod.splits sum.splits)

lemma run_consistent:
  "consistent L' [] (snd (run L nb)) \<Longrightarrow> run L' nb = run L nb"
  unfolding snd_run by (simp add: run_def run_cells_consistent)

section \<open>The constants reach the calls\<close>

text \<open>
  Every call of a run of the notebook, complete or not, passes the constants: the cells
  are gone through statement by statement, with the invariant that the constants
  assigned so far have their values and the helper names are those of \<^verbatim>\<open>utility\<close>.
\<close>

lemma keeps_Nil: "keeps L P [] P"
  by (simp add: keeps_def)

lemma keeps_step:
  assumes "\<And>st h. P st \<Longrightarrow>
             list_all has_constants (snd (exec L st h s))
             \<and> (\<forall>st1 t1. exec L st h s = (Inr st1, t1) \<longrightarrow> Q st1)"
      and "keeps L Q ss R"
  shows "keeps L P (s # ss) R"
  unfolding keeps_def
proof (intro allI impI)
  fix st h assume P: "P st"
  from assms(1) [OF P, of h]
  have 1: "list_all has_constants (snd (exec L st h s))"
    and 2: "\<And>st1 t1. exec L st h s = (Inr st1, t1) \<Longrightarrow> Q st1"
    by auto
  show "list_all has_constants (snd (exec_block L st h (s # ss))) \<and>
       (\<forall>st1 t1. exec_block L st h (s # ss) = (Inr st1, t1) \<longrightarrow> R st1)"
  proof (cases "exec L st h s")
    case (Pair r t)
    show ?thesis
    proof (cases r)
      case (Inl e)
      with Pair 1 show ?thesis by simp
    next
      case (Inr st1)
      with Pair 2 have "Q st1" by simp
      with assms(2) [unfolded keeps_def, rule_format, of st1 "h @ t"]
      have "list_all has_constants (snd (exec_block L st1 (h @ t) ss))"
        and "\<And>st2 t2. exec_block L st1 (h @ t) ss = (Inr st2, t2) \<Longrightarrow> R st2"
        by auto
      with Pair Inr 1 show ?thesis by (auto split: prod.splits sum.splits)
    qed
  qed
qed

lemma holds_update:
  "holds bs st \<Longrightarrow> x \<noteq> ''print'' \<Longrightarrow> x \<notin> set helper_names \<Longrightarrow> x \<notin> fst ` set bs
   \<Longrightarrow> holds bs (st\<lparr>env := (env st)(x \<mapsto> v)\<rparr>)"
  unfolding holds_def names_ok_def list_all_iff by (simp add: image_iff) metis

lemma holds_more:
  "holds bs st \<Longrightarrow> x \<noteq> ''print'' \<Longrightarrow> x \<notin> set helper_names \<Longrightarrow> x \<notin> fst ` set bs
   \<Longrightarrow> holds ((x, v) # bs) (st\<lparr>env := (env st)(x \<mapsto> v)\<rparr>)"
  unfolding holds_def names_ok_def list_all_iff by (simp add: image_iff) metis

lemma holds_star:
  "holds [] st \<Longrightarrow> holds [] (st\<lparr>env := star_bind ''utility'' xs (env st)\<rparr>)"
  by (auto simp: holds_def names_ok_def list_all_iff star_bind_def)

lemma holds_initial: "holds [] initial"
  by (simp add: holds_def names_ok_def initial_def helper_names_def)

lemma holds_consts: "holds bs st \<Longrightarrow> list_all (\<lambda>b. env st (fst b) = Some (snd b)) bs"
  by (simp add: holds_def)

lemma holds_names: "holds bs st \<Longrightarrow> names_ok st"
  by (simp add: holds_def)

text \<open>A call of a helper, and a \<^verbatim>\<open>print\<close>, in a state of the invariant.\<close>

lemma eval_helper:
  assumes "names_ok st" and "f \<in> set helper_names"
  shows "eval L st h (FCall f args kws) =
     (if env st f = None then (Inl (NameError f), [])
      else (case eval_args L st h args of
             (Inl er, t1) \<Rightarrow> (Inl er, t1)
           | (Inr vs, t1) \<Rightarrow>
               (case eval_kws L st (h @ t1) kws of
                  (Inl er, t2) \<Rightarrow> (Inl er, t1 @ t2)
                | (Inr kvs, t2) \<Rightarrow>
                    (L (h @ t1 @ t2) (Fn [''utility'', f]) vs kvs,
                     t1 @ t2 @ [Call (Fn [''utility'', f]) vs kvs
                                  (L (h @ t1 @ t2) (Fn [''utility'', f]) vs kvs)]))))"
proof -
  from assms have "env st f = None \<or> env st f = Some (VRef [''utility'', f])"
    by (auto simp: names_ok_def list_all_iff)
  moreover from assms(2) have "f \<noteq> ''print''"
    by (auto simp: helper_names_def)
  ultimately show ?thesis
    by (auto simp: lookup_def call_value_def call_lib_def split: prod.splits sum.splits)
qed

lemma eval_print:
  assumes "names_ok st"
  shows "eval L st h (FCall ''print'' args kws) =
     (case eval_args L st h args of
        (Inl er, t1) \<Rightarrow> (Inl er, t1)
      | (Inr vs, t1) \<Rightarrow>
          (case eval_kws L st (h @ t1) kws of
             (Inl er, t2) \<Rightarrow> (Inl er, t1 @ t2)
           | (Inr kvs, t2) \<Rightarrow> (Inr VNone, t1 @ t2 @ [Print vs kvs])))"
  using assms
  by (auto simp: names_ok_def lookup_def call_value_def split: prod.splits sum.splits)

lemma for_loop_keeps:
  assumes "keeps L (holds bs) body (holds bs)"
      and "x \<noteq> ''print''" "x \<notin> set helper_names" "x \<notin> fst ` set bs"
  shows "holds bs st \<Longrightarrow>
         list_all has_constants (snd (for_loop L st h x vs body))
         \<and> (\<forall>st1 t1. for_loop L st h x vs body = (Inr st1, t1) \<longrightarrow> holds bs st1)"
proof (induction vs arbitrary: st h)
  case Nil
  then show ?case by simp
next
  case (Cons v vs)
  let ?st = "st\<lparr>env := (env st)(x \<mapsto> v)\<rparr>"
  have h: "holds bs ?st"
    using Cons.prems assms(2-4) by (rule holds_update)
  from assms(1) [unfolded keeps_def, rule_format, OF h, of h]
  have 1: "list_all has_constants (snd (exec_block L ?st h body))"
    and 2: "\<And>st1 t1. exec_block L ?st h body = (Inr st1, t1) \<Longrightarrow> holds bs st1"
    by auto
  show ?case
  proof (cases "exec_block L ?st h body")
    case (Pair r t)
    show ?thesis
    proof (cases r)
      case (Inl e)
      with Pair 1 show ?thesis by simp
    next
      case (Inr st1)
      with Pair 2 have "holds bs st1" by simp
      from Cons.IH [OF this, of "h @ t"] Pair Inr 1 show ?thesis
        by (auto split: prod.splits sum.splits)
    qed
  qed
qed

lemma for_keeps:
  assumes "keeps L (holds bs) body (holds bs)"
      and "x \<noteq> ''print''" "x \<notin> set helper_names" "x \<notin> fst ` set bs"
      and P: "holds bs st"
  shows "list_all has_constants (snd (exec L st h (SFor x (Name y) body))) \<and>
       (\<forall>st1 t1. exec L st h (SFor x (Name y) body) = (Inr st1, t1) \<longrightarrow> holds bs st1)"
proof (cases "lookup st y")
  case (Inl e)
  then show ?thesis by simp
next
  case (Inr v)
  show ?thesis
  proof (cases "iterate v")
    case (Inl e)
    with Inr show ?thesis by simp
  next
    case vs: (Inr vs)
    from for_loop_keeps [OF assms(1-4) P, of h vs] Inr vs show ?thesis
      by (auto split: prod.splits sum.splits)
  qed
qed

lemma keeps_for_step:
  assumes "keeps L (holds bs) body (holds bs)"
      and "x \<noteq> ''print''" "x \<notin> set helper_names" "x \<notin> fst ` set bs"
      and "keeps L (holds bs) ss R"
  shows "keeps L (holds bs) (SFor x (Name y) body # ss) R"
  using for_keeps [OF assms(1-4)] assms(5) by (rule keeps_step)

lemma comp_loop_zeros:
  "comp_loop L st h x (Name x) (Flt 0 0) vs acc =
     (if hashable_all vs then (Inr (VDict (zeros vs acc)), []) else (Inl TypeError, []))"
  by (induction vs arbitrary: acc) (auto simp: lookup_def zeros_def)

lemmas stmt_simps =
  eval_helper eval_print comp_loop_zeros lookup_def call_lib_def helper_names_def constants_def

lemma setup_keeps: "keeps L (holds []) (cell_stmts cell_setup) (holds (drop 2 constants))"
  unfolding cell_defs cell_stmts.simps
  apply (rule keeps_step [where Q = "holds []"])
   apply (auto simp: call_lib_def helper_names_def split: prod.splits sum.splits intro!: holds_update)[1]
  apply (rule keeps_step [where Q = "holds []"])
   apply (auto simp: call_lib_def helper_names_def split: prod.splits sum.splits intro!: holds_update)[1]
  apply (rule keeps_step [where Q = "holds []"])
   apply (auto simp: call_lib_def split: prod.splits sum.splits intro!: holds_star)[1]
  apply (rule keeps_step [where Q = "holds (drop 3 constants)"])
   apply (auto simp: constants_def helper_names_def intro!: holds_more)[1]
  apply (rule keeps_step [where Q = "holds (drop 2 constants)"])
   apply (auto simp: constants_def helper_names_def intro!: holds_more)[1]
  apply (rule keeps_Nil)
  done

lemma trotter_keeps:
  "keeps L (holds (drop 2 constants)) (cell_stmts cell_trotter) (holds (drop 1 constants))"
  unfolding cell_defs cell_stmts.simps
  apply (rule keeps_step [where Q = "holds (drop 1 constants)"])
   apply (auto simp: constants_def helper_names_def intro!: holds_more)[1]
  apply (rule keeps_Nil)
  done

lemma ucc_keeps:
  "keeps L (holds (drop 1 constants)) (cell_stmts cell_ucc) (holds (drop 1 constants))"
  unfolding cell_defs cell_stmts.simps
  apply (rule keeps_step [where Q = "holds (drop 1 constants)"],
         frule holds_names, frule holds_consts,
         (auto simp: stmt_simps simp del: eval.simps(7)
            split: prod.splits sum.splits option.splits intro!: holds_update)[1])+
  apply (rule keeps_Nil)
  done


lemma ranking_keeps:
  "keeps L (holds (drop 1 constants)) (cell_stmts cell_qcc_ranking) (holds constants)"
  unfolding cell_defs cell_stmts.simps
  apply (rule keeps_step [where Q = "holds (drop 1 constants)"],
         frule holds_names, frule holds_consts,
         (auto simp: stmt_simps simp del: eval.simps(7)
            split: prod.splits sum.splits option.splits intro!: holds_update)[1])
  apply (rule keeps_step [where Q = "holds (drop 1 constants)"],
         frule holds_names, frule holds_consts,
         (auto simp: stmt_simps simp del: eval.simps(7)
            split: prod.splits sum.splits option.splits intro!: holds_update)[1])
  apply (rule keeps_step [where Q = "holds (drop 1 constants)"],
         frule holds_names, frule holds_consts,
         (auto simp: stmt_simps simp del: eval.simps(7)
            split: prod.splits sum.splits option.splits intro!: holds_update)[1])
  apply (rule keeps_step [where Q = "holds (drop 1 constants)"],
         frule holds_names, frule holds_consts,
         (auto simp: stmt_simps simp del: eval.simps(7)
            split: prod.splits sum.splits option.splits intro!: holds_update)[1])
  apply (rule keeps_step [where Q = "holds (constants)"])
   apply (auto simp: constants_def helper_names_def intro!: holds_more)[1]
  apply (rule keeps_step [where Q = "holds (constants)"],
         frule holds_names, frule holds_consts,
         (auto simp: stmt_simps simp del: eval.simps(7)
            split: prod.splits sum.splits option.splits intro!: holds_update)[1])
  apply (rule keeps_step [where Q = "holds (constants)"],
         frule holds_names, frule holds_consts,
         (auto simp: stmt_simps simp del: eval.simps(7)
            split: prod.splits sum.splits option.splits intro!: holds_update)[1])
  apply (rule keeps_for_step)
      apply (rule keeps_step [where Q = "holds (constants)"],
         frule holds_names, frule holds_consts,
         (auto simp: stmt_simps simp del: eval.simps(7)
            split: prod.splits sum.splits option.splits intro!: holds_update)[1])
      apply (rule keeps_Nil)
     apply (simp_all add: helper_names_def constants_def)[3]
  apply (rule keeps_step [where Q = "holds (constants)"],
         frule holds_names, frule holds_consts,
         (auto simp: stmt_simps simp del: eval.simps(7)
            split: prod.splits sum.splits option.splits intro!: holds_update)[1])
  apply (rule keeps_step [where Q = "holds (constants)"],
         frule holds_names, frule holds_consts,
         (auto simp: stmt_simps simp del: eval.simps(7)
            split: prod.splits sum.splits option.splits intro!: holds_update)[1])
  apply (rule keeps_for_step)
      apply (rule keeps_step [where Q = "holds (constants)"],
         frule holds_names, frule holds_consts,
         (auto simp: stmt_simps simp del: eval.simps(7)
            split: prod.splits sum.splits option.splits intro!: holds_update)[1])
      apply (rule keeps_Nil)
     apply (simp_all add: helper_names_def constants_def)[3]
  apply (rule keeps_Nil)
  done

lemma vqe_keeps:
  "keeps L (holds constants) (cell_stmts cell_qcc_vqe) (holds constants)"
  unfolding cell_defs cell_stmts.simps
  apply (rule keeps_step [where Q = "holds (constants)"],
         frule holds_names, frule holds_consts,
         (auto simp: stmt_simps simp del: eval.simps(7)
            split: prod.splits sum.splits option.splits intro!: holds_update)[1])
  apply (rule keeps_step [where Q = "holds (constants)"],
         frule holds_names, frule holds_consts,
         (auto simp: stmt_simps simp del: eval.simps(7)
            split: prod.splits sum.splits option.splits intro!: holds_update)[1])
  apply (rule keeps_step [where Q = "holds (constants)"],
         frule holds_names, frule holds_consts,
         (auto simp: stmt_simps simp del: eval.simps(7)
            split: prod.splits sum.splits option.splits intro!: holds_update)[1])
  apply (rule keeps_step [where Q = "holds (constants)"],
         frule holds_names, frule holds_consts,
         (auto simp: stmt_simps simp del: eval.simps(7)
            split: prod.splits sum.splits option.splits intro!: holds_update)[1])
  apply (rule keeps_step [where Q = "holds (constants)"],
         frule holds_names, frule holds_consts,
         (auto simp: stmt_simps simp del: eval.simps(7)
            split: prod.splits sum.splits option.splits intro!: holds_update)[1])
  apply (rule keeps_step [where Q = "holds (constants)"],
         frule holds_names, frule holds_consts,
         (auto simp: stmt_simps simp del: eval.simps(7)
            split: prod.splits sum.splits option.splits intro!: holds_update)[1])
  apply (rule keeps_Nil)
  done

lemma cells_step:
  assumes "keeps L P (cell_stmts c) Q"
      and "\<And>st h. Q st \<Longrightarrow> list_all has_constants (snd (run_cells L st h cs))"
      and "P st"
  shows "list_all has_constants (snd (run_cells L st h (c # cs)))"
proof (cases c)
  case Markdown
  with assms(1,3) have "Q st" by (auto simp: keeps_def)
  with assms(2) Markdown show ?thesis by simp
next
  case (Code ss)
  from assms(1) [unfolded keeps_def, rule_format, OF assms(3), of h] Code
  have 1: "list_all has_constants (snd (exec_block L st h ss))"
    and 2: "\<And>st1 t1. exec_block L st h ss = (Inr st1, t1) \<Longrightarrow> Q st1"
    by auto
  show ?thesis
  proof (cases "exec_block L st h ss")
    case (Pair r t)
    show ?thesis
    proof (cases r)
      case (Inl e)
      with Pair 1 Code show ?thesis by simp
    next
      case (Inr st1)
      with Pair 2 have "Q st1" by simp
      from assms(2) [OF this, of "h @ t"] Pair Inr 1 Code show ?thesis
        by (auto split: prod.splits sum.splits)
    qed
  qed
qed

lemma notebook_constants: "list_all has_constants (snd (run L notebook))"
proof -
  have e: "list_all has_constants (snd (run_cells L st h [cell_empty]))" for st h
    by (simp add: cell_empty_def)
  have v: "list_all has_constants (snd (run_cells L st h [Markdown, cell_qcc_vqe, cell_empty]))"
    if "holds constants st" for st h
    using cells_step [OF vqe_keeps e that] by simp
  have r: "list_all has_constants
             (snd (run_cells L st h [Markdown, cell_qcc_ranking, Markdown, cell_qcc_vqe, cell_empty]))"
    if "holds (drop 1 constants) st" for st h
    using cells_step [OF ranking_keeps v that] by simp
  have u: "list_all has_constants
             (snd (run_cells L st h
                [Markdown, cell_ucc, Markdown, cell_qcc_ranking, Markdown, cell_qcc_vqe, cell_empty]))"
    if "holds (drop 1 constants) st" for st h
    using cells_step [OF ucc_keeps r that] by simp
  have t: "list_all has_constants
             (snd (run_cells L st h
                [Markdown, cell_trotter, Markdown, cell_ucc, Markdown, cell_qcc_ranking, Markdown,
                 cell_qcc_vqe, cell_empty]))"
    if "holds (drop 2 constants) st" for st h
    using cells_step [OF trotter_keeps u that] by simp
  have "list_all has_constants (snd (run_cells L initial [] notebook))"
    unfolding notebook_def
    using cells_step [OF setup_keeps t holds_initial] by simp
  then show ?thesis by (simp add: snd_run)
qed

section \<open>Complete runs, statement by statement\<close>

lemma call_lib_ok: "call_lib L h c a k = (Inr v, t) \<Longrightarrow> t = [Call c a k (Inr v)]"
  by (auto simp: call_lib_def)

lemma eval_Attr_ok:
  assumes "eval L st h (Attr e a) = (Inr v, t)"
  obtains u t1 where "eval L st h e = (Inr u, t1)" "t = t1 @ [Call (GetAttr a) [u] [] (Inr v)]"
  using assms by (auto simp: call_lib_def split: prod.splits sum.splits)

lemma eval_FCall_ok:
  assumes "eval L st h (FCall f args kws) = (Inr v, t)"
  obtains fv vs kvs t1 t2 t3 where
    "lookup st f = Inr fv" "eval_args L st h args = (Inr vs, t1)"
    "eval_kws L st (h @ t1) kws = (Inr kvs, t2)"
    "call_value L (h @ t1 @ t2) fv vs kvs = (Inr v, t3)" "t = t1 @ t2 @ t3"
  using assms by (auto split: prod.splits sum.splits)

lemma eval_MCall_ok:
  assumes "eval L st h (MCall e m args kws) = (Inr v, t)"
  obtains u b vs kvs t1 t2 t3 where
    "eval L st h e = (Inr u, t1)"
    "eval_args L st (h @ t1 @ [Call (GetAttr m) [u] [] (Inr b)]) args = (Inr vs, t2)"
    "eval_kws L st (h @ t1 @ [Call (GetAttr m) [u] [] (Inr b)] @ t2) kws = (Inr kvs, t3)"
    "t = t1 @ [Call (GetAttr m) [u] [] (Inr b)] @ t2 @ t3 @ [Call (Meth m) (u # vs) kvs (Inr v)]"
  using assms by (auto simp: call_lib_def split: prod.splits sum.splits)

lemma eval_BinOp_ok:
  assumes "eval L st h (BinOp l bop r) = (Inr v, t)"
  obtains a b t1 t2 where
    "eval L st h l = (Inr a, t1)" "eval L st (h @ t1) r = (Inr b, t2)"
    "op_value bop a b v" "t = t1 @ t2 @ op_events bop a b v"
  using assms
  by (auto simp: call_lib_def op_value_def op_events_def split: prod.splits sum.splits option.splits)

lemma eval_Subscript_ok:
  assumes "eval L st h (Subscript e i) = (Inr v, t)"
  obtains a k t1 t2 where
    "eval L st h e = (Inr a, t1)" "eval L st (h @ t1) i = (Inr k, t2)"
    "subscript a k = Inr v" "t = t1 @ t2"
  using assms by (auto split: prod.splits sum.splits)

lemma eval_DictComp_ok:
  assumes "eval L st h (DictComp ke ve x it) = (Inr v, t)"
  obtains u vs t1 t2 where
    "eval L st h it = (Inr u, t1)" "iterate u = Inr vs"
    "comp_loop L st (h @ t1) x ke ve vs [] = (Inr v, t2)" "t = t1 @ t2"
  using assms by (auto split: prod.splits sum.splits)

lemma eval_args_Cons_ok:
  assumes "eval_args L st h (e # es) = (Inr vs, t)"
  obtains v vs' t1 t2 where
    "eval L st h e = (Inr v, t1)" "eval_args L st (h @ t1) es = (Inr vs', t2)"
    "vs = v # vs'" "t = t1 @ t2"
  using assms by (auto split: prod.splits sum.splits)

lemma eval_kws_Cons_ok:
  assumes "eval_kws L st h ((k, e) # kes) = (Inr kvs, t)"
  obtains v kvs' t1 t2 where
    "eval L st h e = (Inr v, t1)" "eval_kws L st (h @ t1) kes = (Inr kvs', t2)"
    "kvs = (k, v) # kvs'" "t = t1 @ t2"
  using assms by (auto split: prod.splits sum.splits)

lemma exec_SImport_ok:
  assumes "exec L st h (SImport m a) = (Inr st', t)"
  obtains v where "t = [Call (Import m) [] [] (Inr v)]" "st' = st\<lparr>env := (env st)(a \<mapsto> VRef [m])\<rparr>"
  using assms by (auto simp: call_lib_def split: prod.splits sum.splits)

lemma exec_SImportStar_ok:
  assumes "exec L st h (SImportStar m) = (Inr st', t)"
  obtains v where "t = [Call (ImportStar m) [] [] (Inr v)]"
    "st' = st\<lparr>env := star_bind m (exported v) (env st)\<rparr>"
  using assms by (auto simp: call_lib_def split: prod.splits sum.splits)

lemma exec_SAssign_ok:
  assumes "exec L st h (SAssign x e) = (Inr st', t)"
  obtains v where "eval L st h e = (Inr v, t)" "st' = st\<lparr>env := (env st)(x \<mapsto> v)\<rparr>"
  using assms by (auto split: prod.splits sum.splits)

lemma exec_SExpr_ok:
  assumes "exec L st h (SExpr e) = (Inr st', t)"
  obtains v where "eval L st h e = (Inr v, t)" "st' = st"
  using assms by (auto split: prod.splits sum.splits)

lemma exec_SFor_ok:
  assumes "exec L st h (SFor x it body) = (Inr st', t)"
  obtains u vs t1 t2 where
    "eval L st h it = (Inr u, t1)" "iterate u = Inr vs"
    "for_loop L st (h @ t1) x vs body = (Inr st', t2)" "t = t1 @ t2"
  using assms by (auto split: prod.splits sum.splits)

lemma exec_block_Cons_ok:
  assumes "exec_block L st h (s # ss) = (Inr st', t)"
  obtains st1 t1 t2 where
    "exec L st h s = (Inr st1, t1)" "exec_block L st1 (h @ t1) ss = (Inr st', t2)" "t = t1 @ t2"
  using assms by (auto split: prod.splits sum.splits)

lemma run_cells_Code_ok:
  assumes "run_cells L st h (Code ss # cs) = (Inr st', t)"
  obtains st1 t1 t2 where
    "exec_block L st h ss = (Inr st1, t1)" "run_cells L st1 (h @ t1) cs = (Inr st', t2)" "t = t1 @ t2"
  using assms by (auto split: prod.splits sum.splits)

lemma eval_Num_ok:
  assumes "eval L st h (Num n) = (Inr v, t)" obtains "v = VInt n" "t = []"
  using assms by auto

lemma eval_Flt_ok:
  assumes "eval L st h (Flt m e) = (Inr v, t)" obtains "v = VFlt m e" "t = []"
  using assms by auto

lemma eval_Str_ok:
  assumes "eval L st h (Str s) = (Inr v, t)" obtains "v = VStr s" "t = []"
  using assms by auto

lemma eval_BoolC_ok:
  assumes "eval L st h (BoolC b) = (Inr v, t)" obtains "v = VBool b" "t = []"
  using assms by auto

lemma eval_Name_ok:
  assumes "eval L st h (Name x) = (Inr v, t)" obtains "lookup st x = Inr v" "t = []"
  using assms by auto

lemma eval_args_Nil_ok:
  assumes "eval_args L st h [] = (Inr vs, t)" obtains "vs = []" "t = []"
  using assms by auto

lemma eval_kws_Nil_ok:
  assumes "eval_kws L st h [] = (Inr kvs, t)" obtains "kvs = []" "t = []"
  using assms by auto

lemma exec_block_Nil_ok:
  assumes "exec_block L st h [] = (Inr st', t)" obtains "st' = st" "t = []"
  using assms by auto

lemma run_cells_Nil_ok:
  assumes "run_cells L st h [] = (Inr st', t)" obtains "st' = st" "t = []"
  using assms by auto

lemma run_cells_Markdown_ok:
  assumes "run_cells L st h (Markdown # cs) = (Inr st', t)"
  obtains "run_cells L st h cs = (Inr st', t)"
  using assms by auto



lemma run_ok:
  assumes "run L nb = (Inr st, t)"
  shows "run_cells L initial [] nb = (Inr st, t)"
  using assms by (auto simp: run_def split: prod.splits sum.splits)


lemma for_print_item:
  assumes "for_loop L st h x vs [SExpr (FCall ''print'' [Subscript (Name x) (Num 1)] [])] = (Inr st', t)"
      and "env st ''print'' = Some (VRef [''builtins'', ''print''])" and "x \<noteq> ''print''"
  shows "\<exists>items. map (\<lambda>v. subscript v (VInt 1)) vs = map Inr items
           \<and> t = map (\<lambda>i. Print [i] []) items \<and> st' = bind_last st x vs"
  using assms
proof (induction vs arbitrary: st h t)
  case Nil
  then show ?case by (simp add: bind_last_def)
next
  case (Cons v vs)
  from Cons.prems obtain i t2 where
    i: "subscript v (VInt 1) = Inr i" and
    l: "for_loop L (st\<lparr>env := (env st)(x \<mapsto> v)\<rparr>) (h @ [Print [i] []]) x vs
          [SExpr (FCall ''print'' [Subscript (Name x) (Num 1)] [])] = (Inr st', t2)" and
    t: "t = Print [i] [] # t2"
    by (auto simp: lookup_def call_value_def split: prod.splits sum.splits)
  from Cons.IH [OF l] Cons.prems(2,3) obtain items where
    "map (\<lambda>v. subscript v (VInt 1)) vs = map Inr items" "t2 = map (\<lambda>i. Print [i] []) items"
    "st' = bind_last (st\<lparr>env := (env st)(x \<mapsto> v)\<rparr>) x vs"
    by auto
  with i t show ?case
    by (intro exI [of _ "i # items"]) (auto simp: bind_last_def)
qed

lemma for_print_item_ok:
  assumes "for_loop L st h x vs [SExpr (FCall ''print'' [Subscript (Name x) (Num 1)] [])] = (Inr st', t)"
      and "env st ''print'' = Some (VRef [''builtins'', ''print''])" and "x \<noteq> ''print''"
  obtains items where "map (\<lambda>v. subscript v (VInt 1)) vs = map Inr items"
    "t = map (\<lambda>i. Print [i] []) items" "st' = bind_last st x vs"
  using for_print_item [OF assms] by blast

lemma for_print_var:
  assumes "for_loop L st h x vs [SExpr (FCall ''print'' [Name x] [])] = (Inr st', t)"
      and "env st ''print'' = Some (VRef [''builtins'', ''print''])" and "x \<noteq> ''print''"
  shows "t = map (\<lambda>i. Print [i] []) vs \<and> st' = bind_last st x vs"
  using assms
proof (induction vs arbitrary: st h t)
  case Nil
  then show ?case by (simp add: bind_last_def)
next
  case (Cons v vs)
  from Cons.prems obtain t2 where
    l: "for_loop L (st\<lparr>env := (env st)(x \<mapsto> v)\<rparr>) (h @ [Print [v] []]) x vs
          [SExpr (FCall ''print'' [Name x] [])] = (Inr st', t2)" and
    t: "t = Print [v] [] # t2"
    by (auto simp: lookup_def call_value_def split: prod.splits sum.splits)
  from Cons.IH [OF l] Cons.prems(2,3) have
    "t2 = map (\<lambda>i. Print [i] []) vs" "st' = bind_last (st\<lparr>env := (env st)(x \<mapsto> v)\<rparr>) x vs"
    by auto
  with t show ?case
    by (auto simp: bind_last_def)
qed

lemma for_print_var_ok:
  assumes "for_loop L st h x vs [SExpr (FCall ''print'' [Name x] [])] = (Inr st', t)"
      and "env st ''print'' = Some (VRef [''builtins'', ''print''])" and "x \<noteq> ''print''"
  obtains "t = map (\<lambda>i. Print [i] []) vs" "st' = bind_last st x vs"
  using for_print_var [OF assms] by blast

lemma bind_last_simps [simp]:
  "x \<noteq> y \<Longrightarrow> env (bind_last st x vs) y = env st y"
  by (simp add: bind_last_def)

lemmas stmt_elims =
  eval_Num_ok eval_Flt_ok eval_Str_ok eval_BoolC_ok eval_Name_ok eval_args_Nil_ok eval_kws_Nil_ok
  eval_Attr_ok eval_FCall_ok eval_MCall_ok eval_BinOp_ok eval_Subscript_ok eval_DictComp_ok
  eval_args_Cons_ok eval_kws_Cons_ok exec_SImport_ok exec_SImportStar_ok exec_SAssign_ok
  exec_SExpr_ok

lemmas big_simps =
  eval.simps(6-11) eval_args.simps(2) eval_kws.simps(2) exec.simps exec_block.simps(2)
  run_cells.simps(3)

declare big_simps [simp del]

text \<open>
  A complete run of the UCC workflow, and of the whole notebook, statement by statement.
\<close>

lemma ucc_complete:
  assumes "run L ucc_workflow = (Inr st, t)"
  shows "ucc_run t"
  using run_ok [OF assms]
  unfolding ucc_workflow_def cell_defs initial_def
  apply -
  apply (erule run_cells_Markdown_ok)
  apply (erule run_cells_Code_ok)
  apply 
    (erule exec_block_Cons_ok,
     elim stmt_elims,
     clarsimp simp: lookup_def star_bind_def call_value_def comp_loop_zeros dest!: call_lib_ok
       split: if_splits)+
  apply (erule run_cells_Code_ok)
  apply 
    (erule exec_block_Cons_ok,
     elim stmt_elims,
     clarsimp simp: lookup_def star_bind_def call_value_def comp_loop_zeros dest!: call_lib_ok
       split: if_splits)+
  apply (erule run_cells_Code_ok)
  apply 
    (erule exec_block_Cons_ok,
     elim stmt_elims,
     clarsimp simp: lookup_def star_bind_def call_value_def comp_loop_zeros dest!: call_lib_ok
       split: if_splits)+
  apply (simp only: ucc_run_def import_events_def molecule_events_def ucc_events_def append_Cons append_Nil)
  apply (intro exI conjI)
    apply (rule refl)
   apply assumption+
  done

lemma notebook_complete:
  assumes "run L notebook = (Inr st, t)"
  shows "complete_run t"
  using run_ok [OF assms]
  unfolding cell_defs initial_def
  apply -
  apply (erule run_cells_Markdown_ok)
  apply (erule run_cells_Code_ok)
  apply 
    (erule exec_block_Cons_ok,
     elim stmt_elims,
     clarsimp simp: lookup_def star_bind_def call_value_def comp_loop_zeros dest!: call_lib_ok
       split: if_splits)+
  apply (erule run_cells_Code_ok)
  apply 
    (erule exec_block_Cons_ok,
     elim stmt_elims,
     clarsimp simp: lookup_def star_bind_def call_value_def comp_loop_zeros dest!: call_lib_ok
       split: if_splits)+
  apply (erule run_cells_Code_ok)
  apply 
    (erule exec_block_Cons_ok,
     elim stmt_elims,
     clarsimp simp: lookup_def star_bind_def call_value_def comp_loop_zeros dest!: call_lib_ok
       split: if_splits)+
  apply (erule run_cells_Code_ok)
  apply 
    (erule exec_block_Cons_ok,
     elim stmt_elims,
     clarsimp simp: lookup_def star_bind_def call_value_def comp_loop_zeros dest!: call_lib_ok
       split: if_splits)+
  apply (erule exec_block_Cons_ok, erule exec_SFor_ok, elim stmt_elims,
      clarsimp simp: lookup_def star_bind_def)
  apply (erule for_print_item_ok)
    apply simp
   apply simp
  apply clarsimp
  apply 
    (erule exec_block_Cons_ok,
     elim stmt_elims,
     clarsimp simp: lookup_def star_bind_def call_value_def comp_loop_zeros dest!: call_lib_ok
       split: if_splits)+
  apply (erule exec_block_Cons_ok, erule exec_SFor_ok, elim stmt_elims,
      clarsimp simp: lookup_def star_bind_def)
  apply (erule for_print_var_ok)
    apply simp
   apply simp
  apply clarsimp
  apply (erule run_cells_Code_ok)
  apply 
    (erule exec_block_Cons_ok,
     elim stmt_elims,
     clarsimp simp: lookup_def star_bind_def call_value_def comp_loop_zeros dest!: call_lib_ok
       split: if_splits)+
  apply (erule run_cells_Code_ok)
  apply clarsimp
  apply (simp only: complete_run_def import_events_def molecule_events_def ucc_events_def
      ranking_events_def vqe_events_def append_Cons append_Nil append_assoc)
  apply (intro exI conjI)
            apply (rule refl)
           apply assumption+
  done

section \<open>A run records the answers of its library\<close>

lemma call_lib_self: "call_lib L h c a k = (r, t) \<Longrightarrow> consistent L h t"
  by (auto simp: call_lib_def)

lemma call_value_self: "call_value L h f a k = (r, t) \<Longrightarrow> consistent L h t"
  by (auto simp: call_value_def call_lib_def split: val.splits if_splits)

lemma truth_self: "truth L h v = (r, t) \<Longrightarrow> consistent L h t"
  by (auto simp: truth_def call_lib_def split: val.splits sum.splits)

lemma eval_args_self:
  assumes "\<And>e h r t. e \<in> set es \<Longrightarrow> eval L st h e = (r, t) \<Longrightarrow> consistent L h t"
  shows "eval_args L st h es = (r, t) \<Longrightarrow> consistent L h t"
  using assms
proof (induction es arbitrary: h r t)
  case (Cons e es)
  have 1: "\<And>h r t. eval L st h e = (r, t) \<Longrightarrow> consistent L h t"
    by (rule Cons.prems(2)) simp_all
  have 2: "\<And>h r t. eval_args L st h es = (r, t) \<Longrightarrow> consistent L h t"
    by (rule Cons.IH) (simp, rule Cons.prems(2), simp_all)
  from Cons.prems(1) show ?case
    by (auto simp: consistent_append eval_args.simps split: prod.splits sum.splits intro: 1 2)
qed simp

lemma eval_kws_self:
  assumes "\<And>k e h r t. (k, e) \<in> set kes \<Longrightarrow> eval L st h e = (r, t) \<Longrightarrow> consistent L h t"
  shows "eval_kws L st h kes = (r, t) \<Longrightarrow> consistent L h t"
  using assms
proof (induction kes arbitrary: h r t)
  case (Cons ke kes)
  obtain k e where ke: "ke = (k, e)" by (cases ke)
  have 1: "\<And>h r t. eval L st h e = (r, t) \<Longrightarrow> consistent L h t"
    by (rule Cons.prems(2) [of k e]) (simp_all add: ke)
  have tl: "consistent L h t" if "(k, e) \<in> set kes" "eval L st h e = (r, t)" for k e h r t
    using Cons.prems(2) [of k e h r t] that by simp
  have 2: "consistent L h t" if "eval_kws L st h kes = (r, t)" for h r t
    by (rule Cons.IH [OF that]) (rule tl)
  from Cons.prems(1) show ?case unfolding ke
    by (auto simp: consistent_append eval_kws.simps split: prod.splits sum.splits intro: 1 2)
qed simp

lemma comp_loop_self:
  assumes "\<And>h st r t. eval L st h ke = (r, t) \<Longrightarrow> consistent L h t"
      and "\<And>h st r t. eval L st h ve = (r, t) \<Longrightarrow> consistent L h t"
  shows "comp_loop L st h x ke ve vs acc = (r, t) \<Longrightarrow> consistent L h t"
proof (induction vs arbitrary: h acc r t)
  case (Cons v vs)
  from Cons.prems show ?case
    by (auto simp: consistent_append split: prod.splits sum.splits if_splits
        intro: assms Cons.IH)
qed simp

lemma eval_self: "eval L st h e = (r, t) \<Longrightarrow> consistent L h t"
proof (induction e arbitrary: h st r t)
  case (Attr e a)
  from Attr.prems show ?case
    by (auto simp: consistent_append eval.simps split: prod.splits sum.splits
        intro: Attr.IH call_lib_self)
next
  case (FCall f args kws)
  have A: "\<And>h r t. eval_args L st h args = (r, t) \<Longrightarrow> consistent L h t"
    using FCall.IH(1) by (rule eval_args_self)
  have K: "\<And>h r t. eval_kws L st h kws = (r, t) \<Longrightarrow> consistent L h t"
    by (rule eval_kws_self) (use FCall.IH(2) in force)
  from FCall.prems show ?case
    by (auto simp: consistent_append eval.simps split: prod.splits sum.splits
        intro: A K call_value_self)
next
  case (MCall e m args kws)
  have A: "\<And>h r t. eval_args L st h args = (r, t) \<Longrightarrow> consistent L h t"
    using MCall.IH(2) by (rule eval_args_self)
  have K: "\<And>h r t. eval_kws L st h kws = (r, t) \<Longrightarrow> consistent L h t"
    by (rule eval_kws_self) (use MCall.IH(3) in force)
  from MCall.prems show ?case
    by (auto simp: consistent_append eval.simps split: prod.splits sum.splits
        intro: A K MCall.IH(1) call_lib_self)
next
  case (BinOp l bop r')
  from BinOp.prems show ?case
    by (auto simp: consistent_append eval.simps split: prod.splits sum.splits option.splits
        intro: BinOp.IH call_lib_self)
next
  case (Subscript e i)
  from Subscript.prems show ?case
    by (auto simp: consistent_append eval.simps split: prod.splits sum.splits
        intro: Subscript.IH)
next
  case (DictComp ke ve x it)
  have C: "\<And>h vs acc r t. comp_loop L st h x ke ve vs acc = (r, t) \<Longrightarrow> consistent L h t"
    using DictComp.IH(1,2) by (rule comp_loop_self)
  from DictComp.prems show ?case
    by (auto simp: consistent_append eval.simps split: prod.splits sum.splits
        intro: C DictComp.IH(3))
qed auto

lemma exec_block_self:
  assumes "\<And>s h st r t. s \<in> set ss \<Longrightarrow> exec L st h s = (r, t) \<Longrightarrow> consistent L h t"
  shows "exec_block L st h ss = (r, t) \<Longrightarrow> consistent L h t"
  using assms
proof (induction ss arbitrary: h st r t)
  case (Cons s ss)
  have 1: "\<And>h st r t. exec L st h s = (r, t) \<Longrightarrow> consistent L h t"
    by (rule Cons.prems(2)) simp_all
  have 2: "\<And>h st r t. exec_block L st h ss = (r, t) \<Longrightarrow> consistent L h t"
    by (rule Cons.IH) (simp, rule Cons.prems(2), simp_all)
  from Cons.prems(1) show ?case
    by (auto simp: consistent_append exec_block.simps split: prod.splits sum.splits intro: 1 2)
qed simp

lemma for_loop_self:
  assumes "\<And>h st r t. exec_block L st h body = (r, t) \<Longrightarrow> consistent L h t"
  shows "for_loop L st h x vs body = (r, t) \<Longrightarrow> consistent L h t"
proof (induction vs arbitrary: h st r t)
  case (Cons v vs)
  from Cons.prems show ?case
    by (auto simp: consistent_append split: prod.splits sum.splits intro: assms Cons.IH)
qed simp

lemma exec_self: "exec L st h s = (r, t) \<Longrightarrow> consistent L h t"
proof (induction s arbitrary: h st r t)
  case (SImport m a)
  then show ?case by (auto simp: call_lib_def exec.simps split: sum.splits)
next
  case (SImportStar m)
  then show ?case by (auto simp: call_lib_def exec.simps split: sum.splits)
next
  case (SAssign x e)
  then show ?case
    by (auto simp: exec.simps split: prod.splits sum.splits intro: eval_self)
next
  case (SExpr e)
  then show ?case
    by (auto simp: exec.simps split: prod.splits sum.splits intro: eval_self)
next
  case (SFor x it body)
  have B: "\<And>h st r t. exec_block L st h body = (r, t) \<Longrightarrow> consistent L h t"
    using SFor.IH by (rule exec_block_self)
  have F: "\<And>h st vs r t. for_loop L st h x vs body = (r, t) \<Longrightarrow> consistent L h t"
    using B by (rule for_loop_self)
  from SFor.prems show ?case
    by (auto simp: consistent_append exec.simps split: prod.splits sum.splits
        intro: F eval_self)
next
  case (SIf c yes no)
  have Y: "\<And>h st r t. exec_block L st h yes = (r, t) \<Longrightarrow> consistent L h t"
    using SIf.IH(1) by (rule exec_block_self)
  have N: "\<And>h st r t. exec_block L st h no = (r, t) \<Longrightarrow> consistent L h t"
    using SIf.IH(2) by (rule exec_block_self)
  from SIf.prems show ?case
    by (auto simp: consistent_append exec.simps split: prod.splits sum.splits if_splits
        intro: Y N eval_self truth_self)
next
  case (STry body handler)
  have B: "\<And>h st r t. exec_block L st h body = (r, t) \<Longrightarrow> consistent L h t"
    using STry.IH(1) by (rule exec_block_self)
  have H: "\<And>h st r t. exec_block L st h handler = (r, t) \<Longrightarrow> consistent L h t"
    using STry.IH(2) by (rule exec_block_self)
  from STry.prems show ?case
    by (auto simp: consistent_append exec.simps split: prod.splits sum.splits
        intro: B H)
next
  case (SRaise e)
  then show ?case
    by (auto simp: exec.simps split: prod.splits sum.splits val.splits intro: eval_self)
qed

lemma run_cells_self: "run_cells L st h cs = (r, t) \<Longrightarrow> consistent L h t"
proof (induction cs arbitrary: h st r t)
  case (Cons c cs)
  have B: "\<And>ss h st r t. exec_block L st h ss = (r, t) \<Longrightarrow> consistent L h t"
    by (rule exec_block_self) (rule exec_self)
  show ?case
  proof (cases c)
    case Markdown
    with Cons show ?thesis by simp
  next
    case (Code ss)
    with Cons.prems show ?thesis
      by (auto simp: consistent_append run_cells.simps split: prod.splits sum.splits
          intro: B Cons.IH)
  qed
qed simp

lemma run_self: "run L nb = (r, t) \<Longrightarrow> consistent L [] t"
proof -
  assume "run L nb = (r, t)"
  then have "snd (run_cells L initial [] nb) = t"
    by (simp add: snd_run [symmetric])
  then show ?thesis
    using run_cells_self [of L initial "[]" nb "fst (run_cells L initial [] nb)" t]
    by (metis prod.collapse)
qed

lemma consistent_answers: "consistent (\<lambda>h. f) h t = list_all (answers f) t"
proof (induction t arbitrary: h)
  case (Cons ev t)
  then show ?case by (cases ev) simp_all
qed simp


section \<open>What a complete run does\<close>

lemma calls_of_append [simp]: "calls_of c (xs @ ys) = calls_of c xs @ calls_of c ys"
proof (induction xs)
  case (Cons ev xs)
  then show ?case by (cases ev) simp_all
qed simp

lemma calls_of_prints [simp]: "calls_of c (map (\<lambda>v. Print [v] []) vs) = []"
  by (induction vs) simp_all

lemma calls_of_op_events [simp]:
  "c \<noteq> Op bop \<Longrightarrow> calls_of c (op_events bop a b v) = []"
  by (simp add: op_events_def split: option.splits)

lemma stages_append [simp]: "stages (xs @ ys) = stages xs @ stages ys"
  by (induction xs) (simp_all split: option.splits)

lemma stages_prints [simp]: "stages (map (\<lambda>v. Print [v] []) vs) = []"
  by (induction vs) simp_all

lemma stages_op_events [simp]: "stages (op_events bop a b v) = []"
  by (simp add: op_events_def split: option.splits)

lemma computes_in:
  "op_value bop a b v \<Longrightarrow> set (op_events bop a b v) \<subseteq> set t \<Longrightarrow> computes t bop a b v"
  by (auto simp: computes_def op_value_def op_events_def split: option.splits)

lemma run_cells_append:
  "run_cells L st h (xs @ ys) =
     (case run_cells L st h xs of
        (Inl e, t1) \<Rightarrow> (Inl e, t1)
      | (Inr st1, t1) \<Rightarrow> (case run_cells L st1 (h @ t1) ys of (r, t2) \<Rightarrow> (r, t1 @ t2)))"
proof (induction xs arbitrary: st h)
  case (Cons c xs)
  then show ?case
    by (cases c) (auto simp: run_cells.simps split: prod.splits sum.splits)
qed simp

lemma notebook_split: "notebook = ucc_workflow @ qcc_workflow"
  by (simp add: notebook_def ucc_workflow_def qcc_workflow_def)

lemma ucc_prefix:
  assumes "run L notebook = (Inr st, t)"
  obtains st1 tu tq where "run L ucc_workflow = (Inr st1, tu)" "t = tu @ tq"
  using assms unfolding run_def notebook_split run_cells_append
  by (auto split: prod.splits sum.splits)

lemmas event_defs =
  import_events_def molecule_events_def ucc_events_def ranking_events_def vqe_events_def

lemma completesD: "completes r \<Longrightarrow> \<exists>st. r = (Inr st, snd r)"
  by (cases r; cases "fst r") (auto simp: completes_def)

lemma stage_calls_append [simp]: "stage_calls (xs @ ys) = stage_calls xs @ stage_calls ys"
  by (simp add: stage_calls_def)

lemma stage_calls_prints [simp]: "stage_calls (map (\<lambda>v. Print [v] []) vs) = []"
  by (induction vs) (simp_all add: stage_calls_def)

lemma stage_calls_op_events [simp]: "stage_calls (op_events bop a b v) = []"
  by (simp add: op_events_def stage_calls_def split: option.splits)

lemma stage_calls_Cons [simp]:
  "stage_calls (ev # evs) = (if stage_of ev = None then stage_calls evs else ev # stage_calls evs)"
  by (simp add: stage_calls_def)

lemma stage_calls_Nil [simp]: "stage_calls [] = []"
  by (simp add: stage_calls_def)

text \<open>
  C1: in a complete run of the notebook, each workflow goes through the five stages in
  order. The events of the run are those of the UCC workflow followed by those of the
  QCC workflow. The stage calls of the first are, in this order and with no other:
  \<^verbatim>\<open>get_molecular_data\<close>, then \<^verbatim>\<open>tq.quantumchemistry.Molecule\<close> on its result and the
  basis, then \<^verbatim>\<open>make_hamiltonian\<close> on the molecule, then \<^verbatim>\<open>make_uccsd_ansatz\<close> on the
  molecule, then \<^verbatim>\<open>tq.ExpectationValue\<close> on this Hamiltonian and this circuit, then
  \<^verbatim>\<open>tq.minimize\<close> on this objective. Those of the second are the same, except that the
  ansatz is built by \<^verbatim>\<open>construct_QMF_ansatz\<close> and then \<^verbatim>\<open>construct_QCC_ansatz\<close>, and the
  circuit of the objective is the sum of the two. No stage is missing, none comes twice,
  none is out of order.
\<close>

theorem stages_in_order:
  assumes "run L notebook = (Inr st, t)"
  shows "\<exists>tu tq xyz q mol H U E iv res xyz' q' mol' H' nq umf ents uent uqcc E' iv' res'.
      t = tu @ tq \<and> snd (run L ucc_workflow) = tu
    \<and> stage_calls tu =
        [Call (Fn [''utility'', ''get_molecular_data'']) [VStr ''h2'']
           [(''geometry'', VInt 2), (''xyz_format'', VBool True)] (Inr xyz),
         Call (Meth ''Molecule'') [q]
           [(''geometry'', xyz), (''basis_set'', VStr ''sto-3g'')] (Inr mol),
         Call (Meth ''make_hamiltonian'') [mol] [] (Inr H),
         Call (Meth ''make_uccsd_ansatz'') [mol]
           [(''initial_amplitudes'', VStr ''mp2''), (''threshold'', VFlt 1 (- 6)),
            (''trotter_steps'', VInt 1)] (Inr U),
         Call (Meth ''ExpectationValue'') [VRef [''tequila'']]
           [(''H'', H), (''U'', U)] (Inr E),
         Call (Meth ''minimize'') [VRef [''tequila'']]
           [(''objective'', E), (''method'', VStr ''BFGS''),
            (''initial_values'', iv), (''tol'', VFlt 1 (- 6))] (Inr res)]
    \<and> Call (GetAttr ''quantumchemistry'') [VRef [''tequila'']] [] (Inr q) \<in> set tu
    \<and> stage_calls tq =
        [Call (Fn [''utility'', ''get_molecular_data'']) [VStr ''h2'']
           [(''geometry'', VInt 2), (''xyz_format'', VBool True)] (Inr xyz'),
         Call (Meth ''Molecule'') [q']
           [(''geometry'', xyz'), (''basis_set'', VStr ''sto-3g'')] (Inr mol'),
         Call (Meth ''make_hamiltonian'') [mol'] [] (Inr H'),
         Call (Fn [''utility'', ''construct_QMF_ansatz'']) [] [(''n_qubits'', nq)] (Inr umf),
         Call (Fn [''utility'', ''construct_QCC_ansatz'']) [ents] [] (Inr uent),
         Call (Meth ''ExpectationValue'') [VRef [''tequila'']]
           [(''H'', H'), (''U'', uqcc)] (Inr E'),
         Call (Meth ''minimize'') [VRef [''tequila'']]
           [(''objective'', E'), (''method'', VStr ''BFGS''),
            (''initial_values'', iv'), (''tol'', VFlt 1 (- 6))] (Inr res')]
    \<and> Call (GetAttr ''quantumchemistry'') [VRef [''tequila'']] [] (Inr q') \<in> set tq
    \<and> computes tq Add umf uent uqcc
    \<and> stages tu = [Configure, Configure, Hamiltonian, Ansatz, Objective, Minimize]
    \<and> stages tq = [Configure, Configure, Hamiltonian, Ansatz, Ansatz, Objective, Minimize]"
proof -
  from assms obtain st1 tu tq where u: "run L ucc_workflow = (Inr st1, tu)" and t: "t = tu @ tq"
    by (rule ucc_prefix)
  from ucc_complete [OF u] have lu: "length tu = 17"
    by (auto simp: ucc_run_def event_defs)
  from ucc_complete [OF u] have U: "\<exists>xyz q mol H U E iv res.
      stage_calls tu =
        [Call (Fn [''utility'', ''get_molecular_data'']) [VStr ''h2'']
           [(''geometry'', VInt 2), (''xyz_format'', VBool True)] (Inr xyz),
         Call (Meth ''Molecule'') [q]
           [(''geometry'', xyz), (''basis_set'', VStr ''sto-3g'')] (Inr mol),
         Call (Meth ''make_hamiltonian'') [mol] [] (Inr H),
         Call (Meth ''make_uccsd_ansatz'') [mol]
           [(''initial_amplitudes'', VStr ''mp2''), (''threshold'', VFlt 1 (- 6)),
            (''trotter_steps'', VInt 1)] (Inr U),
         Call (Meth ''ExpectationValue'') [VRef [''tequila'']]
           [(''H'', H), (''U'', U)] (Inr E),
         Call (Meth ''minimize'') [VRef [''tequila'']]
           [(''objective'', E), (''method'', VStr ''BFGS''),
            (''initial_values'', iv), (''tol'', VFlt 1 (- 6))] (Inr res)]
    \<and> Call (GetAttr ''quantumchemistry'') [VRef [''tequila'']] [] (Inr q) \<in> set tu
    \<and> stages tu = [Configure, Configure, Hamiltonian, Ansatz, Objective, Minimize]"
    by (auto simp: ucc_run_def event_defs)
  from t lu have d: "drop 17 t = tq" by simp
  from notebook_complete [OF assms] have "\<exists>xyz' q' mol' H' nq umf ents uent uqcc E' iv' res'.
      stage_calls (drop 17 t) =
        [Call (Fn [''utility'', ''get_molecular_data'']) [VStr ''h2'']
           [(''geometry'', VInt 2), (''xyz_format'', VBool True)] (Inr xyz'),
         Call (Meth ''Molecule'') [q']
           [(''geometry'', xyz'), (''basis_set'', VStr ''sto-3g'')] (Inr mol'),
         Call (Meth ''make_hamiltonian'') [mol'] [] (Inr H'),
         Call (Fn [''utility'', ''construct_QMF_ansatz'']) [] [(''n_qubits'', nq)] (Inr umf),
         Call (Fn [''utility'', ''construct_QCC_ansatz'']) [ents] [] (Inr uent),
         Call (Meth ''ExpectationValue'') [VRef [''tequila'']]
           [(''H'', H'), (''U'', uqcc)] (Inr E'),
         Call (Meth ''minimize'') [VRef [''tequila'']]
           [(''objective'', E'), (''method'', VStr ''BFGS''),
            (''initial_values'', iv'), (''tol'', VFlt 1 (- 6))] (Inr res')]
    \<and> Call (GetAttr ''quantumchemistry'') [VRef [''tequila'']] [] (Inr q') \<in> set (drop 17 t)
    \<and> computes (drop 17 t) Add umf uent uqcc
    \<and> stages (drop 17 t)
        = [Configure, Configure, Hamiltonian, Ansatz, Ansatz, Objective, Minimize]"
    by (auto simp: complete_run_def event_defs intro!: computes_in)
  with d have Q: "\<exists>xyz' q' mol' H' nq umf ents uent uqcc E' iv' res'.
      stage_calls tq =
        [Call (Fn [''utility'', ''get_molecular_data'']) [VStr ''h2'']
           [(''geometry'', VInt 2), (''xyz_format'', VBool True)] (Inr xyz'),
         Call (Meth ''Molecule'') [q']
           [(''geometry'', xyz'), (''basis_set'', VStr ''sto-3g'')] (Inr mol'),
         Call (Meth ''make_hamiltonian'') [mol'] [] (Inr H'),
         Call (Fn [''utility'', ''construct_QMF_ansatz'']) [] [(''n_qubits'', nq)] (Inr umf),
         Call (Fn [''utility'', ''construct_QCC_ansatz'']) [ents] [] (Inr uent),
         Call (Meth ''ExpectationValue'') [VRef [''tequila'']]
           [(''H'', H'), (''U'', uqcc)] (Inr E'),
         Call (Meth ''minimize'') [VRef [''tequila'']]
           [(''objective'', E'), (''method'', VStr ''BFGS''),
            (''initial_values'', iv'), (''tol'', VFlt 1 (- 6))] (Inr res')]
    \<and> Call (GetAttr ''quantumchemistry'') [VRef [''tequila'']] [] (Inr q') \<in> set tq
    \<and> computes tq Add umf uent uqcc
    \<and> stages tq = [Configure, Configure, Hamiltonian, Ansatz, Ansatz, Objective, Minimize]"
    by simp
  from u have s: "snd (run L ucc_workflow) = tu" by simp
  from t s U Q show ?thesis
    apply (elim exE conjE)
    apply (intro exI conjI)
                apply assumption+
    done
qed

theorem stages_in_order_witness:
  "completes (run stub_lib notebook)
   \<and> stages (snd (run stub_lib notebook))
       = [Configure, Configure, Hamiltonian, Ansatz, Objective, Minimize,
          Configure, Configure, Hamiltonian, Ansatz, Ansatz, Objective, Minimize]"
proof -
  have c: "completes (run stub_lib notebook)"
    by code_simp
  then obtain st where r: "run stub_lib notebook = (Inr st, snd (run stub_lib notebook))"
    by (auto dest: completesD)
  from stages_in_order [OF r] obtain tu tq where
    "snd (run stub_lib notebook) = tu @ tq"
    "stages tu = [Configure, Configure, Hamiltonian, Ansatz, Objective, Minimize]"
    "stages tq = [Configure, Configure, Hamiltonian, Ansatz, Ansatz, Objective, Minimize]"
    by blast
  with c show ?thesis
    by simp
qed

section \<open>A deterministic straight-line program\<close>

text \<open>
  C6: the notebook is a deterministic straight-line program. It imports \<^verbatim>\<open>numpy\<close>,
  \<^verbatim>\<open>tequila\<close> and \<^verbatim>\<open>utility\<close> and no module for threads, scheduling or caching, and each
  of its statements is an import, an assignment, a \<^verbatim>\<open>print\<close> or a loop that only prints:
  nothing is started on the side, nothing is tested or kept for reuse. The run is a
  function of the library's behaviour: if a library \<open>L'\<close> answers the calls made in the
  run against \<open>L\<close> as \<open>L\<close> did, then the run against \<open>L'\<close> is the same run, with the
  same calls in the same order with the same arguments, the same values printed and the
  same outcome. In every run, complete or not, the calls pass the constants of the
  notebook: \<^verbatim>\<open>basis = 'sto-3g'\<close> to \<^verbatim>\<open>Molecule\<close>, \<^verbatim>\<open>threshold = 1e-6\<close> and
  \<^verbatim>\<open>trotter_steps = 1\<close> to \<^verbatim>\<open>make_uccsd_ansatz\<close>, the threshold as cutoff to
  \<^verbatim>\<open>generate_QCC_gradient_groupings\<close>, and \<^verbatim>\<open>n_ents = 1\<close> to \<^verbatim>\<open>get_QCC_entanglers\<close>. And
  in a complete run what is needed again is asked again, not remembered:
  \<^verbatim>\<open>get_molecular_data\<close> is called twice with the same arguments, and
  \<^verbatim>\<open>molecule.n_orbitals\<close> is read four times from the same molecule.
\<close>

theorem deterministic_straight_line:
  "concat (map cell_imports notebook) = [''numpy'', ''tequila'', ''utility'']
   \<and> list_all straight_line (concat (map cell_stmts notebook))
   \<and> (\<forall>L L'. consistent L' [] (snd (run L notebook)) \<longrightarrow> run L' notebook = run L notebook)
   \<and> (\<forall>L. list_all has_constants (snd (run L notebook)))
   \<and> (\<forall>L st t. run L notebook = (Inr st, t) \<longrightarrow>
         (\<exists>a k r r'. calls_of (Fn [''utility'', ''get_molecular_data'']) t = [(a, k, r), (a, k, r')])
         \<and> (\<exists>a r1 r2 r3 r4. calls_of (GetAttr ''n_orbitals'') t
                = [(a, [], r1), (a, [], r2), (a, [], r3), (a, [], r4)]))"
proof -
  have "concat (map cell_imports notebook) = [''numpy'', ''tequila'', ''utility'']"
    by (simp add: cell_defs)
  moreover have "list_all straight_line (concat (map cell_stmts notebook))"
    by (simp add: cell_defs straight_line_def)
  moreover have
    "(\<exists>a k r r'. calls_of (Fn [''utility'', ''get_molecular_data'']) t = [(a, k, r), (a, k, r')])
     \<and> (\<exists>a r1 r2 r3 r4. calls_of (GetAttr ''n_orbitals'') t
            = [(a, [], r1), (a, [], r2), (a, [], r3), (a, [], r4)])"
    if "run L notebook = (Inr st, t)" for L st t
    using notebook_complete [OF that]
    by (auto simp: complete_run_def event_defs)
  ultimately show ?thesis
    using run_consistent notebook_constants by blast
qed

theorem deterministic_straight_line_witness:
  "consistent tiring_lib [] (snd (run stub_lib notebook))
   \<and> run tiring_lib notebook = run stub_lib notebook
   \<and> list_all has_constants (snd (run stub_lib notebook))"
proof -
  have c: "consistent tiring_lib [] (snd (run stub_lib notebook))"
    by code_simp
  from deterministic_straight_line c show ?thesis by blast
qed

section \<open>The minimisation of the UCC workflow\<close>

lemma dict_set_keys: "fst ` set (dict_set d k v) = insert k (fst ` set d)"
  by (induction d k v rule: dict_set.induct) (simp_all add: insert_commute)

lemma dict_set_distinct: "distinct (map fst (dict_set d k v)) = distinct (map fst d)"
  by (induction d k v rule: dict_set.induct) (simp_all add: dict_set_keys)

lemma dict_set_values: "snd ` set (dict_set d k v) \<subseteq> insert v (snd ` set d)"
  by (induction d k v rule: dict_set.induct) (simp_all add: subset_insertI2 insert_commute)

lemma zeros_keys: "fst ` set (zeros vs acc) = fst ` set acc \<union> set vs"
  unfolding zeros_def
  by (induction vs arbitrary: acc) (simp_all add: dict_set_keys)

lemma zeros_distinct: "distinct (map fst acc) \<Longrightarrow> distinct (map fst (zeros vs acc))"
  unfolding zeros_def
  by (induction vs arbitrary: acc) (simp_all add: dict_set_distinct)

lemma zeros_values: "snd ` set (zeros vs acc) \<subseteq> insert (VFlt 0 0) (snd ` set acc)"
  unfolding zeros_def
proof (induction vs arbitrary: acc)
  case Nil
  show ?case by (simp add: subset_insertI)
next
  case (Cons v vs)
  have "snd ` set (fold (\<lambda>k d. dict_set d k (VFlt 0 0)) vs (dict_set acc v (VFlt 0 0)))
          \<subseteq> insert (VFlt 0 0) (snd ` set (dict_set acc v (VFlt 0 0)))"
    by (rule Cons)
  also have "\<dots> \<subseteq> insert (VFlt 0 0) (snd ` set acc)"
    using dict_set_values [of acc v "VFlt 0 0"] by blast
  finally show ?case by simp
qed

lemma zeros_lookup:
  assumes "k \<in> set vs"
  shows "map_of (zeros vs []) k = Some (VFlt 0 0)"
proof -
  from assms zeros_keys [of vs "[]"] have "k \<in> fst ` set (zeros vs [])" by simp
  then obtain v where v: "map_of (zeros vs []) k = Some v"
    by (cases "map_of (zeros vs []) k") (auto simp: map_of_eq_None_iff)
  then have "(k, v) \<in> set (zeros vs [])" by (rule map_of_SomeD)
  then have "v \<in> snd ` set (zeros vs [])" by force
  with zeros_values [of vs "[]"] have "v = VFlt 0 0" by auto
  with v show ?thesis by simp
qed

lemma zeros_member: "k \<in> set vs \<Longrightarrow> (k, VFlt 0 0) \<in> set (zeros vs [])"
  by (rule map_of_SomeD) (rule zeros_lookup)

text \<open>
  C7: in a complete run of the UCC workflow, \<^verbatim>\<open>tq.minimize\<close> is called once, with the
  objective \<open>E\<close> built by \<^verbatim>\<open>tq.ExpectationValue\<close>, the method \<^verbatim>\<open>"BFGS"\<close>, the tolerance
  \<^verbatim>\<open>1e-6\<close>, and as initial values a dictionary with exactly one entry for each element of
  \<^verbatim>\<open>E.extract_variables()\<close>, every one of them mapped to \<^verbatim>\<open>0.0\<close>.
\<close>

theorem ucc_minimize_arguments:
  assumes "run L ucc_workflow = (Inr st, t)"
  shows "\<exists>H U E vars vs d res.
      calls_of (Meth ''ExpectationValue'') t
        = [([VRef [''tequila'']], [(''H'', H), (''U'', U)], Inr E)]
    \<and> calls_of (Meth ''extract_variables'') t = [([E], [], Inr vars)]
    \<and> iterate vars = Inr vs
    \<and> calls_of (Meth ''minimize'') t
        = [([VRef [''tequila'']],
            [(''objective'', E), (''method'', VStr ''BFGS''),
             (''initial_values'', VDict d), (''tol'', VFlt 1 (- 6))], Inr res)]
    \<and> distinct (map fst d) \<and> set (map fst d) = set vs
    \<and> (\<forall>k \<in> set vs. map_of d k = Some (VFlt 0 0))"
  using ucc_complete [OF assms] zeros_distinct [of "[]"]
  by (auto simp: ucc_run_def event_defs zeros_lookup zeros_member zeros_keys)

theorem ucc_minimize_arguments_witness:
  "completes (run stub_lib ucc_workflow)
   \<and> (\<exists>E d res. calls_of (Meth ''minimize'') (snd (run stub_lib ucc_workflow))
        = [([VRef [''tequila'']],
            [(''objective'', E), (''method'', VStr ''BFGS''),
             (''initial_values'', VDict d), (''tol'', VFlt 1 (- 6))], Inr res)])"
proof -
  have c: "completes (run stub_lib ucc_workflow)"
    by code_simp
  then obtain st where r: "run stub_lib ucc_workflow = (Inr st, snd (run stub_lib ucc_workflow))"
    by (auto dest: completesD)
  from ucc_minimize_arguments [OF r] c show ?thesis
    by blast
qed

section \<open>The two ansatz families\<close>

lemma computes_int: "computes t Mult (VInt 2) (VInt n) v \<Longrightarrow> v = VInt (2 * n)"
  by (simp add: computes_def arith_def as_int_def)

text \<open>
  C2: a complete run of the notebook builds two ansatz circuits and minimises the energy
  of each. The first is \<^verbatim>\<open>molecule.make_uccsd_ansatz\<close> with \<^verbatim>\<open>initial_amplitudes='mp2'\<close>,
  the threshold \<^verbatim>\<open>1e-6\<close> and one Trotter step; the second is the sum of the mean-field part
  \<^verbatim>\<open>construct_QMF_ansatz\<close> and the entangler part \<^verbatim>\<open>construct_QCC_ansatz\<close>. Each is given
  to \<^verbatim>\<open>tq.ExpectationValue\<close> with the Hamiltonian of \<^verbatim>\<open>make_hamiltonian\<close>, and the
  result to \<^verbatim>\<open>tq.minimize\<close>; there is no other ansatz, objective or minimisation.
\<close>

theorem two_ansatz_families:
  assumes "run L notebook = (Inr st, t)"
  shows "\<exists>mol mol' H H' U E iv res nq umf ents uent uqcc E' iv' res'.
      calls_of (Meth ''make_hamiltonian'') t = [([mol], [], Inr H), ([mol'], [], Inr H')]
    \<and> calls_of (Meth ''make_uccsd_ansatz'') t
        = [([mol], [(''initial_amplitudes'', VStr ''mp2''), (''threshold'', VFlt 1 (- 6)),
                    (''trotter_steps'', VInt 1)], Inr U)]
    \<and> calls_of (Fn [''utility'', ''construct_QMF_ansatz'']) t = [([], [(''n_qubits'', nq)], Inr umf)]
    \<and> calls_of (Fn [''utility'', ''construct_QCC_ansatz'']) t = [([ents], [], Inr uent)]
    \<and> computes t Add umf uent uqcc
    \<and> calls_of (Meth ''ExpectationValue'') t
        = [([VRef [''tequila'']], [(''H'', H), (''U'', U)], Inr E),
           ([VRef [''tequila'']], [(''H'', H'), (''U'', uqcc)], Inr E')]
    \<and> calls_of (Meth ''minimize'') t
        = [([VRef [''tequila'']],
            [(''objective'', E), (''method'', VStr ''BFGS''),
             (''initial_values'', iv), (''tol'', VFlt 1 (- 6))], Inr res),
           ([VRef [''tequila'']],
            [(''objective'', E'), (''method'', VStr ''BFGS''),
             (''initial_values'', iv'), (''tol'', VFlt 1 (- 6))], Inr res')]"
  using notebook_complete [OF assms]
  by (auto simp: complete_run_def event_defs intro!: computes_in)


theorem two_ansatz_families_witness:
  "completes (run stub_lib notebook)
   \<and> length (calls_of (Meth ''minimize'') (snd (run stub_lib notebook))) = 2
   \<and> length (calls_of (Meth ''ExpectationValue'') (snd (run stub_lib notebook))) = 2"
proof -
  have c: "completes (run stub_lib notebook)"
    by code_simp
  then obtain st where r: "run stub_lib notebook = (Inr st, snd (run stub_lib notebook))"
    by (auto dest: completesD)
  from two_ansatz_families [OF r] c show ?thesis
    by auto
qed

section \<open>One Hamiltonian for both workflows\<close>

lemma answers_prints [simp]: "list_all (answers f) (map (\<lambda>v. Print [v] []) vs)"
  by (induction vs) simp_all

lemma pure_answers:
  assumes "run L nb = (r, t)" and "\<forall>h h'. L h = L h'"
  shows "list_all (answers (L [])) t"
proof -
  from assms(2) have e: "L h = L []" for h by blast
  have "L = (\<lambda>h. L [])" by (rule ext) (rule e)
  with run_self [OF assms(1)] have "consistent (\<lambda>h. L []) [] t" by simp
  then show ?thesis by (simp only: consistent_answers)
qed

text \<open>
  C8: in a complete run, both workflows build the molecule and the Hamiltonian by the
  same calls: \<^verbatim>\<open>get_molecular_data('h2', geometry=2, xyz_format=True)\<close>, then
  \<^verbatim>\<open>tq.quantumchemistry.Molecule\<close> on its result with the basis \<^verbatim>\<open>'sto-3g'\<close>, then
  \<^verbatim>\<open>make_hamiltonian()\<close> without arguments on the molecule; each Hamiltonian goes to the
  objective of its workflow. When the library's answers depend on the call only, not on
  what was called before, the two Hamiltonians are equal.
\<close>

theorem same_hamiltonian_inputs:
  assumes "run L notebook = (Inr st, t)"
  shows "\<exists>xyz xyz' q q' mol mol' H H' U U' E E'.
      calls_of (Fn [''utility'', ''get_molecular_data'']) t
        = [([VStr ''h2''], [(''geometry'', VInt 2), (''xyz_format'', VBool True)], Inr xyz),
           ([VStr ''h2''], [(''geometry'', VInt 2), (''xyz_format'', VBool True)], Inr xyz')]
    \<and> calls_of (GetAttr ''quantumchemistry'') t
        = [([VRef [''tequila'']], [], Inr q), ([VRef [''tequila'']], [], Inr q')]
    \<and> calls_of (Meth ''Molecule'') t
        = [([q], [(''geometry'', xyz), (''basis_set'', VStr ''sto-3g'')], Inr mol),
           ([q'], [(''geometry'', xyz'), (''basis_set'', VStr ''sto-3g'')], Inr mol')]
    \<and> calls_of (Meth ''make_hamiltonian'') t = [([mol], [], Inr H), ([mol'], [], Inr H')]
    \<and> calls_of (Meth ''ExpectationValue'') t
        = [([VRef [''tequila'']], [(''H'', H), (''U'', U)], Inr E),
           ([VRef [''tequila'']], [(''H'', H'), (''U'', U')], Inr E')]
    \<and> ((\<forall>h h'. L h = L h') \<longrightarrow> H' = H)"
  using notebook_complete [OF assms] pure_answers [OF assms]
  by (auto simp: complete_run_def event_defs)

theorem same_hamiltonian_inputs_witness:
  "completes (run stub_lib notebook)
   \<and> (\<forall>h h'. stub_lib h = stub_lib h')
   \<and> (\<exists>H U U' E E'.
        calls_of (Meth ''ExpectationValue'') (snd (run stub_lib notebook))
          = [([VRef [''tequila'']], [(''H'', H), (''U'', U)], Inr E),
             ([VRef [''tequila'']], [(''H'', H), (''U'', U')], Inr E')])"
proof -
  have c: "completes (run stub_lib notebook)"
    by code_simp
  then obtain st where r: "run stub_lib notebook = (Inr st, snd (run stub_lib notebook))"
    by (auto dest: completesD)
  have p: "\<forall>h h'. stub_lib h = stub_lib h'"
    by (simp add: stub_lib_def)
  from same_hamiltonian_inputs [OF r] p obtain H U U' E E' where
    "calls_of (Meth ''ExpectationValue'') (snd (run stub_lib notebook))
       = [([VRef [''tequila'']], [(''H'', H), (''U'', U)], Inr E),
          ([VRef [''tequila'']], [(''H'', H), (''U'', U')], Inr E')]"
    by blast
  with c p show ?thesis
    by blast
qed

section \<open>The QCC ansatz\<close>

lemma as_specified_prints [simp]:
  "list_all (as_specified fg) (map (\<lambda>v. Print [v] []) vs)"
  by (induction vs) simp_all

lemma as_specified_op_events [simp]: "list_all (as_specified fg) (op_events bop a b v)"
  by (simp add: op_events_def split: option.splits)




end
